theory Spec2Isabelle
  imports Complex_Main "HOL-Library.Sublist"
begin

text \<open>
  The component \<open>Dashboard\<close> of \<open>src/app/page.tsx\<close>: once the snapshot is loaded it derives
  five arrays of chart records (lines 60 to 92), three percentages (lines 94 to 96) and
  the percentages of two insight cards (lines 339 and 353).  These derivations are
  embedded here; fetching the snapshot and drawing the charts are not.
\<close>

section \<open>JavaScript values used by the dashboard\<close>

text \<open>
  A JavaScript number is an IEEE 754 binary64 value.  The finite non-zero doubles and
  \<open>+0\<close> are carried as the rational they denote (\<open>Finite 0\<close> is \<open>+0\<close>); \<open>-0\<close>, the two
  infinities and NaN are constructors of their own.
\<close>

datatype number = NaN | Infinity | NegInfinity | NegZero | Finite rat

text \<open>The values a property of a derived chart record can hold.\<close>

datatype jsval = Undefined | JNum number | JStr string

text \<open>
  An object literal such as \<open>{ name, value, fill }\<close> is the list of its properties in
  the order they are written.
\<close>

type_synonym jsobject = "(string \<times> jsval) list"

text \<open>The exception \<open>toFixed\<close> can throw.\<close>

datatype error = RangeError

text \<open>
  What \<open>Number.prototype.toFixed\<close> returns: a string.  For a magnitude of at least
  \<open>10^21\<close> the method hands over to \<open>Number::toString\<close>, whose exponent notation is
  not spelled out here: \<open>NumberToString q\<close> stands for that string.
\<close>

datatype display = Text string | NumberToString rat

section \<open>The data model: \<open>interface DashboardData\<close>\<close>

text \<open>
  A \<open>Record<string, number>\<close> is the list of the object's own properties in the order
  \<open>Object.entries\<close> enumerates them, which is the order of the mapping; a well-formed
  object has pairwise distinct keys.
  Strings are lists of bytes (UTF-8); the only characters the code inspects are ASCII,
  which never occur inside a multi-byte sequence.
\<close>

record ContactAvailability =
  homePhone :: number
  mobilePhone :: number
  noContact :: number

record DashboardData =
  totalPatients :: number
  genderDistribution :: "(string \<times> number) list"
  ethnicityDistribution :: "(string \<times> number) list"
  ageGroups :: "(string \<times> number) list"
  prescriberStats :: "(string \<times> number) list"
  surgeryStats :: "(string \<times> number) list"
  contactAvailability :: ContactAvailability

definition Object_entries :: "(string \<times> number) list \<Rightarrow> (string \<times> number) list" where
  "Object_entries obj = obj"

text \<open>
  \<open>obj[key]\<close>: the value stored under the key, \<open>None\<close> for \<open>undefined\<close> (none of the keys
  the code reads is a property of \<open>Object.prototype\<close>).
\<close>

definition get_prop :: "(string \<times> number) list \<Rightarrow> string \<Rightarrow> number option" where
  "get_prop obj key = map_of obj key"

text \<open>\<open>ToNumber\<close> on \<open>number | undefined\<close>: \<open>undefined\<close> becomes NaN.\<close>

definition ToNumber :: "number option \<Rightarrow> number" where
  "ToNumber v = (case v of None \<Rightarrow> NaN | Some n \<Rightarrow> n)"

section \<open>Number arithmetic (IEEE 754 binary64, round to nearest, ties to even)\<close>

definition pow2 :: "int \<Rightarrow> rat" where
  "pow2 k = (if 0 \<le> k then 2 ^ nat k else 1 / 2 ^ nat (- k))"

text \<open>The number of binary digits of a positive integer.\<close>

function bit_length :: "int \<Rightarrow> int" where
  "bit_length n = (if n \<le> 0 then 0 else 1 + bit_length (n div 2))"
  by pat_completeness auto
termination
  by (relation "measure nat") auto

declare bit_length.simps [simp del]

text \<open>For a positive rational \<open>a\<close>, the integer \<open>e\<close> with \<open>2^e \<le> a < 2^(e+1)\<close>.\<close>

definition floor_log2 :: "rat \<Rightarrow> int" where
  "floor_log2 a =
     (let k = bit_length (fst (quotient_of a)) - bit_length (snd (quotient_of a))
      in if pow2 k \<le> a then k else k - 1)"

definition round_half_even :: "rat \<Rightarrow> int" where
  "round_half_even q =
     (let n = \<lfloor>q\<rfloor>; r = q - of_int n
      in if r < 1 / 2 then n else if 1 / 2 < r then n + 1 else if even n then n else n + 1)"

definition signed_infinity :: "bool \<Rightarrow> number" where
  "signed_infinity neg = (if neg then NegInfinity else Infinity)"

definition signed_zero :: "bool \<Rightarrow> number" where
  "signed_zero neg = (if neg then NegZero else Finite 0)"

text \<open>
  The double nearest to an exact result: 53 significant bits, the least exponent of a
  subnormal is \<open>-1074\<close>, a magnitude that rounds to \<open>2^1024\<close> or more overflows to an
  infinity, and a non-zero result that rounds to zero keeps its sign.
\<close>

definition round_double :: "rat \<Rightarrow> number" where
  "round_double q =
     (if q = 0 then Finite 0
      else let a = \<bar>q\<bar>;
               e = floor_log2 a;
               p = max (e - 52) (- 1074);
               m = round_half_even (a / pow2 p);
               v = of_int m * pow2 p
           in if pow2 1024 \<le> v then signed_infinity (q < 0)
              else if m = 0 then signed_zero (q < 0)
              else Finite (if q < 0 then - v else v))"

fun is_negative :: "number \<Rightarrow> bool" where
  "is_negative NaN = False"
| "is_negative Infinity = False"
| "is_negative NegInfinity = True"
| "is_negative NegZero = True"
| "is_negative (Finite q) = (q < 0)"

fun is_infinite :: "number \<Rightarrow> bool" where
  "is_infinite Infinity = True"
| "is_infinite NegInfinity = True"
| "is_infinite _ = False"

fun is_zero :: "number \<Rightarrow> bool" where
  "is_zero NegZero = True"
| "is_zero (Finite q) = (q = 0)"
| "is_zero _ = False"

fun real_value :: "number \<Rightarrow> rat" where
  "real_value (Finite q) = q"
| "real_value _ = 0"

text \<open>The operators \<open>/\<close>, \<open>*\<close> and \<open>+\<close> on numbers.\<close>

definition Number_divide :: "number \<Rightarrow> number \<Rightarrow> number" where
  "Number_divide x y =
     (if x = NaN \<or> y = NaN then NaN
      else if is_infinite x then (if is_infinite y then NaN else signed_infinity (is_negative x \<noteq> is_negative y))
      else if is_infinite y then signed_zero (is_negative x \<noteq> is_negative y)
      else if is_zero y then (if is_zero x then NaN else signed_infinity (is_negative x \<noteq> is_negative y))
      else if is_zero x then signed_zero (is_negative x \<noteq> is_negative y)
      else round_double (real_value x / real_value y))"

definition Number_multiply :: "number \<Rightarrow> number \<Rightarrow> number" where
  "Number_multiply x y =
     (if x = NaN \<or> y = NaN then NaN
      else if is_infinite x \<or> is_infinite y then
        (if is_zero x \<or> is_zero y then NaN else signed_infinity (is_negative x \<noteq> is_negative y))
      else if is_zero x \<or> is_zero y then signed_zero (is_negative x \<noteq> is_negative y)
      else round_double (real_value x * real_value y))"

definition Number_add :: "number \<Rightarrow> number \<Rightarrow> number" where
  "Number_add x y =
     (if x = NaN \<or> y = NaN then NaN
      else if is_infinite x then (if is_infinite y \<and> x \<noteq> y then NaN else x)
      else if is_infinite y then y
      else if x = NegZero \<and> y = NegZero then NegZero
      else round_double (real_value x + real_value y))"

section \<open>\<open>Number.prototype.toFixed\<close>\<close>

definition digit_char :: "nat \<Rightarrow> char" where
  "digit_char d = ''0123456789'' ! d"

function digits :: "int \<Rightarrow> string" where
  "digits n =
     (if n < 10 then [digit_char (nat n)]
      else digits (n div 10) @ [digit_char (nat (n mod 10))])"
  by pat_completeness auto
termination
  by (relation "measure nat") auto

declare digits.simps [simp del]

text \<open>
  The decimal digits of \<open>n \<ge> 0\<close>, padded with zeros to \<open>f + 1\<close> places, with the point
  before the last \<open>f\<close> of them (no point when \<open>f = 0\<close>).
\<close>

definition point_string :: "nat \<Rightarrow> int \<Rightarrow> string" where
  "point_string f n =
     (let m = (if n = 0 then ''0'' else digits n)
      in if f \<noteq> 0 then
           (let k = length m;
                z = (if k \<le> f then replicate (f + 1 - k) (CHR ''0'') else []);
                m' = z @ m;
                k' = length m'
            in take (k' - f) m' @ ''.'' @ drop (k' - f) m')
         else m)"

text \<open>
  The digits for \<open>0 \<le> x < 10^21\<close>: \<open>n\<close> is the integer nearest to \<open>x * 10^f\<close>, the larger
  one of two.
\<close>

definition fixed_digits :: "nat \<Rightarrow> rat \<Rightarrow> string" where
  "fixed_digits f x = point_string f \<lfloor>x * 10 ^ f + 1 / 2\<rfloor>"

text \<open>
  \<open>x.toFixed(f)\<close>: a RangeError outside \<open>0..100\<close> digits; NaN and the infinities print
  by name; a negative value prints a minus sign and its magnitude, \<open>-0\<close> prints as zero.
\<close>

definition toFixed :: "number \<Rightarrow> nat \<Rightarrow> error + display" where
  "toFixed x f =
     (if 100 < f then Inl RangeError
      else Inr (case x of
          NaN \<Rightarrow> Text ''NaN''
        | Infinity \<Rightarrow> Text ''Infinity''
        | NegInfinity \<Rightarrow> Text ''-Infinity''
        | NegZero \<Rightarrow> Text (fixed_digits f 0)
        | Finite q \<Rightarrow>
            if 10 ^ 21 \<le> \<bar>q\<bar> then NumberToString q
            else Text ((if q < 0 then ''-'' else '''') @ fixed_digits f \<bar>q\<bar>)))"

section \<open>\<open>COLORS\<close> and \<open>CHART_COLORS\<close>\<close>

definition COLORS_cyan :: string where "COLORS_cyan = ''#00d4ff''"
definition COLORS_purple :: string where "COLORS_purple = ''#a855f7''"
definition COLORS_pink :: string where "COLORS_pink = ''#ec4899''"
definition COLORS_green :: string where "COLORS_green = ''#10b981''"
definition COLORS_orange :: string where "COLORS_orange = ''#f97316''"
definition COLORS_yellow :: string where "COLORS_yellow = ''#fbbf24''"
definition COLORS_blue :: string where "COLORS_blue = ''#3b82f6''"
definition COLORS_red :: string where "COLORS_red = ''#ef4444''"
definition COLORS_teal :: string where "COLORS_teal = ''#14b8a6''"
definition COLORS_indigo :: string where "COLORS_indigo = ''#6366f1''"

definition CHART_COLORS :: "string list" where
  "CHART_COLORS =
    [COLORS_cyan, COLORS_purple, COLORS_pink, COLORS_green,
     COLORS_orange, COLORS_yellow, COLORS_blue, COLORS_red,
     COLORS_teal, COLORS_indigo]"

text \<open>\<open>arr[i]\<close> on an array of strings: \<open>undefined\<close> out of range.\<close>

definition array_get :: "string list \<Rightarrow> nat \<Rightarrow> jsval" where
  "array_get arr i = (if i < length arr then JStr (arr ! i) else Undefined)"

section \<open>String methods\<close>

text \<open>
  \<open>s.replace(pat, rep)\<close> with a string pattern: the first occurrence of \<open>pat\<close>, wherever
  it starts, is replaced; without an occurrence the string is returned as it is.  The
  replacement the code passes is the empty string, which has no \<open>$\<close> pattern to expand.
\<close>

fun replace_first :: "string \<Rightarrow> string \<Rightarrow> string \<Rightarrow> string" where
  "replace_first pat rep [] = (if pat = [] then rep else [])"
| "replace_first pat rep (c # cs) =
     (if prefix pat (c # cs) then rep @ drop (length pat) (c # cs)
      else c # replace_first pat rep cs)"

text \<open>\<open>s.includes(pat)\<close>: \<open>pat\<close> occurs somewhere in \<open>s\<close>.\<close>

fun str_includes :: "string \<Rightarrow> string \<Rightarrow> bool" where
  "str_includes [] pat = (pat = [])"
| "str_includes (c # cs) pat = (prefix pat (c # cs) \<or> str_includes cs pat)"

text \<open>\<open>s.split(sep)\<close> for a separator of one character; the result is never empty.\<close>

fun split :: "string \<Rightarrow> char \<Rightarrow> string list" where
  "split [] sep = [[]]"
| "split (c # cs) sep =
     (if c = sep then [] # split cs sep
      else (case split cs sep of [] \<Rightarrow> [[c]] | p # ps \<Rightarrow> (c # p) # ps))"

text \<open>\<open>parts[0]\<close> on an array of strings.\<close>

definition first_part :: "string list \<Rightarrow> jsval" where
  "first_part parts = (case parts of [] \<Rightarrow> Undefined | p # _ \<Rightarrow> JStr p)"

section \<open>The chart records of \<open>Dashboard\<close>\<close>

text \<open>
  Lines 60 to 92.  \<open>slice(0, n)\<close> is \<open>take n\<close>, and the index \<open>i\<close> that \<open>map\<close> passes to its
  callback is the position given by \<open>enumerate 0\<close>.
\<close>

definition genderData :: "DashboardData \<Rightarrow> jsobject list" where
  "genderData d =
     map (\<lambda>(name, value).
           [(''name'', JStr name),
            (''value'', JNum value),
            (''fill'', JStr (if name = ''Female'' then COLORS_pink
                             else if name = ''Male'' then COLORS_cyan else COLORS_purple))])
         (Object_entries (genderDistribution d))"

definition ageData :: "DashboardData \<Rightarrow> jsobject list" where
  "ageData d =
     map (\<lambda>(i, (name, value)).
           [(''name'', JStr name),
            (''value'', JNum value),
            (''fill'', array_get CHART_COLORS (i mod length CHART_COLORS))])
         (enumerate 0 (Object_entries (ageGroups d)))"

text \<open>The label expression of the ethnicity records, \<open>name.replace(..).replace(..)\<close>.\<close>

definition ethnicityLabel :: "string \<Rightarrow> string" where
  "ethnicityLabel name =
     replace_first ''Asian or Asian British - '' '''' (replace_first ''White - '' '''' name)"

definition ethnicityData :: "DashboardData \<Rightarrow> jsobject list" where
  "ethnicityData d =
     map (\<lambda>(i, (name, value)).
           [(''name'', JStr (ethnicityLabel name)),
            (''value'', JNum value),
            (''fill'', array_get CHART_COLORS (i mod length CHART_COLORS))])
         (enumerate 0 (take 6 (Object_entries (ethnicityDistribution d))))"

definition prescriberData :: "DashboardData \<Rightarrow> jsobject list" where
  "prescriberData d =
     map (\<lambda>(i, (name, value)).
           [(''name'', first_part (split name (CHR '',''))),
            (''patients'', JNum value),
            (''fill'', array_get CHART_COLORS (i mod length CHART_COLORS))])
         (enumerate 0 (take 5 (Object_entries (prescriberStats d))))"

definition contactData :: "DashboardData \<Rightarrow> jsobject list" where
  "contactData d =
     [[(''name'', JStr ''Mobile Phone''),
       (''value'', JNum (mobilePhone (contactAvailability d))),
       (''fill'', JStr COLORS_cyan)],
      [(''name'', JStr ''Home Phone''),
       (''value'', JNum (homePhone (contactAvailability d))),
       (''fill'', JStr COLORS_purple)],
      [(''name'', JStr ''No Contact''),
       (''value'', JNum (noContact (contactAvailability d))),
       (''fill'', JStr COLORS_pink)]]"

section \<open>The percentages of \<open>Dashboard\<close>\<close>

text \<open>Lines 94 to 96; the literal \<open>100\<close> is \<open>Finite 100\<close>.\<close>

definition femalePercent :: "DashboardData \<Rightarrow> error + display" where
  "femalePercent d =
     toFixed (Number_multiply
                (Number_divide (ToNumber (get_prop (genderDistribution d) ''Female''))
                               (totalPatients d))
                (Finite 100)) 1"

definition malePercent :: "DashboardData \<Rightarrow> error + display" where
  "malePercent d =
     toFixed (Number_multiply
                (Number_divide (ToNumber (get_prop (genderDistribution d) ''Male''))
                               (totalPatients d))
                (Finite 100)) 1"

definition contactRate :: "DashboardData \<Rightarrow> error + display" where
  "contactRate d =
     toFixed (Number_multiply
                (Number_divide (Number_add (homePhone (contactAvailability d))
                                           (mobilePhone (contactAvailability d)))
                               (totalPatients d))
                (Finite 100)) 1"

text \<open>The percentage in the description of the insight card "Aging Population".\<close>

definition agingPopulationPercent :: "DashboardData \<Rightarrow> error + display" where
  "agingPopulationPercent d =
     toFixed (Number_multiply
                (Number_divide
                   (Number_add (Number_add (ToNumber (get_prop (ageGroups d) ''60-74''))
                                           (ToNumber (get_prop (ageGroups d) ''75-99'')))
                               (ToNumber (get_prop (ageGroups d) ''100+'')))
                   (totalPatients d))
                (Finite 100)) 0"

text \<open>The percentage in the description of the insight card "Contact Gap".\<close>

definition noContactPercent :: "DashboardData \<Rightarrow> error + display" where
  "noContactPercent d =
     toFixed (Number_multiply
                (Number_divide (noContact (contactAvailability d)) (totalPatients d))
                (Finite 100)) 0"

text \<open>\<open>record.key\<close> on a derived record: \<open>undefined\<close> when the record has no such key.\<close>

definition get_field :: "jsobject \<Rightarrow> string \<Rightarrow> jsval" where
  "get_field r key = (case map_of r key of None \<Rightarrow> Undefined | Some v \<Rightarrow> v)"

section \<open>Notions used to state the properties\<close>

text \<open>The number a property holds, as the charts read it.\<close>

definition number_of :: "jsval \<Rightarrow> number" where
  "number_of v = (case v of JNum n \<Rightarrow> n | _ \<Rightarrow> NaN)"

text \<open>The total of a list of numbers, added from the left starting at \<open>0\<close>.\<close>

definition sum_numbers :: "number list \<Rightarrow> number" where
  "sum_numbers xs = foldl Number_add (Finite 0) xs"

text \<open>
  The shape the specification calls ChartRecord: a string under \<open>name\<close>, a number under
  \<open>value\<close> and a colour string under \<open>fill\<close>.
\<close>

definition spec_ChartRecord :: "jsobject \<Rightarrow> bool" where
  "spec_ChartRecord r =
     ((case get_field r ''name'' of JStr _ \<Rightarrow> True | _ \<Rightarrow> False) \<and>
      (case get_field r ''value'' of JNum _ \<Rightarrow> True | _ \<Rightarrow> False) \<and>
      (case get_field r ''fill'' of JStr _ \<Rightarrow> True | _ \<Rightarrow> False))"

text \<open>Reading a decimal numeral back: the digits before and after the point.\<close>

definition is_digit :: "char \<Rightarrow> bool" where
  "is_digit c = (c \<in> set ''0123456789'')"

definition digit_of_char :: "char \<Rightarrow> int" where
  "digit_of_char c = int (of_char c) - 48"

definition digits_value :: "string \<Rightarrow> int" where
  "digits_value cs = foldl (\<lambda>a c. 10 * a + digit_of_char c) 0 cs"

definition integer_part :: "string \<Rightarrow> string" where
  "integer_part cs = takeWhile (\<lambda>c. c \<noteq> CHR ''.'') cs"

definition fraction_part :: "string \<Rightarrow> string" where
  "fraction_part cs = drop 1 (dropWhile (\<lambda>c. c \<noteq> CHR ''.'') cs)"

definition decimal_value :: "string \<Rightarrow> rat" where
  "decimal_value cs =
     of_int (digits_value (integer_part cs @ fraction_part cs)) / 10 ^ length (fraction_part cs)"

text \<open>
  The result \<open>r\<close> is a text of decimal digits with exactly \<open>f\<close> digits after the point
  (and no point when \<open>f = 0\<close>) whose value differs from \<open>y\<close> by at most half a unit of
  the last digit: \<open>y\<close> rounded to \<open>f\<close> decimal places.
\<close>

definition shows_rounded :: "error + display \<Rightarrow> nat \<Rightarrow> rat \<Rightarrow> bool" where
  "shows_rounded r f y =
     (case r of
        Inr (Text cs) \<Rightarrow>
          integer_part cs \<noteq> [] \<and>
          list_all is_digit (integer_part cs @ fraction_part cs) \<and>
          length (fraction_part cs) = f \<and>
          \<bar>decimal_value cs - y\<bar> \<le> 1 / (2 * 10 ^ f)
      | _ \<Rightarrow> False)"

text \<open>What \<open>toFixed\<close> prints for a number that is not finite.\<close>

definition non_finite_text :: "error + display \<Rightarrow> bool" where
  "non_finite_text r =
     (r = Inr (Text ''NaN'') \<or> r = Inr (Text ''Infinity'') \<or> r = Inr (Text ''-Infinity''))"

text \<open>Sample snapshots.\<close>

definition snapshot_prescribers :: DashboardData where
  "snapshot_prescribers =
     \<lparr>totalPatients = Finite 10,
      genderDistribution = [], ethnicityDistribution = [], ageGroups = [],
      prescriberStats = [(''Smith, John (Dr)'', Finite 7), (''Rother House'', Finite 3)],
      surgeryStats = [],
      contactAvailability = \<lparr>homePhone = Finite 0, mobilePhone = Finite 0, noContact = Finite 0\<rparr>\<rparr>"

definition snapshot_ethnicity :: DashboardData where
  "snapshot_ethnicity =
     \<lparr>totalPatients = Finite 10,
      genderDistribution = [],
      ethnicityDistribution =
        [(''White - British'', Finite 6), (''Other White - Irish'', Finite 4)],
      ageGroups = [], prescriberStats = [], surgeryStats = [],
      contactAvailability = \<lparr>homePhone = Finite 0, mobilePhone = Finite 0, noContact = Finite 0\<rparr>\<rparr>"

definition snapshot_gender :: DashboardData where
  "snapshot_gender =
     \<lparr>totalPatients = Finite 1000,
      genderDistribution = [(''Female'', Finite 520), (''Male'', Finite 480)],
      ethnicityDistribution = [],
      ageGroups = [(''60-74'', Finite 200), (''75-99'', Finite 100), (''100+'', Finite 10)],
      prescriberStats = [], surgeryStats = [],
      contactAvailability =
        \<lparr>homePhone = Finite 150, mobilePhone = Finite 600, noContact = Finite 250\<rparr>\<rparr>"

definition snapshot_third_gender :: DashboardData where
  "snapshot_third_gender =
     snapshot_gender\<lparr>genderDistribution :=
       [(''Male'', Finite 4), (''Unknown'', Finite 1), (''Female'', Finite 5)]\<rparr>"

definition snapshot_no_centenarians :: DashboardData where
  "snapshot_no_centenarians =
     snapshot_gender\<lparr>ageGroups := [(''60-74'', Finite 200), (''75-99'', Finite 100)]\<rparr>"

definition snapshot_no_patients :: DashboardData where
  "snapshot_no_patients = snapshot_gender\<lparr>totalPatients := Finite 0\<rparr>"

section \<open>Strings\<close>

lemma split_first: "split s sep = takeWhile (\<lambda>c. c \<noteq> sep) s # tl (split s sep)"
  by (induction s) (auto split: list.splits)

lemma first_part_split: "first_part (split s sep) = JStr (takeWhile (\<lambda>c. c \<noteq> sep) s)"
  by (subst split_first) (simp add: first_part_def)

lemma replace_first_absent: "\<not> str_includes s pat \<Longrightarrow> replace_first pat rep s = s"
  by (induction s) auto

lemma prefix_append_butlast:
  assumes "pre \<noteq> []" and "prefix pat (pre @ pat @ post)"
  shows "prefix pat (pre @ butlast pat)"
proof -
  have len: "length pat \<le> length (pre @ butlast pat)"
    using assms(1) by (cases pre) auto
  have "take (length pat) (pre @ pat @ post) = pat"
    using assms(2) by (metis append_eq_conv_conj prefix_def)
  moreover have "take (length pat) (pre @ pat @ post) = take (length pat) (pre @ butlast pat)"
    using len by (cases pat rule: rev_cases) auto
  ultimately have "take (length pat) (pre @ butlast pat) = pat" by simp
  then show ?thesis by (metis take_is_prefix)
qed

lemma replace_first_occurrence:
  "\<not> str_includes (pre @ butlast pat) pat \<Longrightarrow>
   replace_first pat rep (pre @ pat @ post) = pre @ rep @ post"
proof (induction pre)
  case Nil
  then show ?case by (cases pat) auto
next
  case (Cons c pre)
  from Cons.prems have np: "\<not> prefix pat ((c # pre) @ butlast pat)"
    and ni: "\<not> str_includes (pre @ butlast pat) pat" by auto
  from np have "\<not> prefix pat ((c # pre) @ pat @ post)"
    using prefix_append_butlast [of "c # pre" pat post] by blast
  with Cons.IH [OF ni] show ?case by simp
qed

lemma replace_first_length_le: "length (replace_first pat [] s) \<le> length s"
  by (induction s) auto

lemma replace_first_length_less:
  "str_includes s pat \<Longrightarrow> pat \<noteq> [] \<Longrightarrow> length (replace_first pat [] s) < length s"
  by (induction s) (auto simp: prefix_def)

lemma ethnicityLabel_fixed_iff:
  "ethnicityLabel t = t \<longleftrightarrow>
     \<not> str_includes t ''White - '' \<and> \<not> str_includes t ''Asian or Asian British - ''"
proof
  assume eq: "ethnicityLabel t = t"
  show "\<not> str_includes t ''White - '' \<and> \<not> str_includes t ''Asian or Asian British - ''"
  proof (rule ccontr)
    assume "\<not> ?thesis"
    then consider "str_includes t ''White - ''"
      | "\<not> str_includes t ''White - ''" "str_includes t ''Asian or Asian British - ''"
      by blast
    then have "length (ethnicityLabel t) < length t"
    proof cases
      case 1
      then have "length (replace_first ''White - '' [] t) < length t"
        by (intro replace_first_length_less) simp_all
      moreover have "length (ethnicityLabel t) \<le> length (replace_first ''White - '' [] t)"
        unfolding ethnicityLabel_def by (rule replace_first_length_le)
      ultimately show ?thesis by simp
    next
      case 2
      then have "replace_first ''White - '' [] t = t"
        by (simp add: replace_first_absent)
      moreover have "length (replace_first ''Asian or Asian British - '' [] t) < length t"
        using 2 by (intro replace_first_length_less) simp_all
      ultimately show ?thesis by (simp add: ethnicityLabel_def)
    qed
    with eq show False by simp
  qed
next
  assume "\<not> str_includes t ''White - '' \<and> \<not> str_includes t ''Asian or Asian British - ''"
  then show "ethnicityLabel t = t"
    by (simp add: ethnicityLabel_def replace_first_absent)
qed

section \<open>The palette\<close>

lemma length_CHART_COLORS: "length CHART_COLORS = 10"
  by (simp add: CHART_COLORS_def)

lemma palette_get: "array_get CHART_COLORS (i mod length CHART_COLORS) = JStr (CHART_COLORS ! (i mod 10))"
  by (simp add: array_get_def length_CHART_COLORS)

section \<open>Powers of two\<close>

lemma pow2_powi: "pow2 k = 2 powi k"
  unfolding pow2_def power_int_def by (simp add: inverse_eq_divide power_one_over)

lemma pow2_pos: "0 < pow2 k"
  by (simp add: pow2_powi zero_less_power_int)

lemma pow2_add: "pow2 (a + b) = pow2 a * pow2 b"
  by (simp add: pow2_powi power_int_add)

lemma pow2_nonneg: "0 \<le> k \<Longrightarrow> pow2 k = 2 ^ nat k"
  by (simp add: pow2_def)

lemma of_int_less_pow2:
  assumes "0 \<le> b" and "n < 2 ^ nat b"
  shows "(of_int n :: rat) < pow2 b"
proof -
  have "(of_int n :: rat) < of_int (2 ^ nat b)"
    using assms(2) by (simp only: of_int_less_iff)
  then show ?thesis
    using assms(1) by (simp add: pow2_nonneg)
qed

lemma pow2_le_of_int:
  assumes "0 \<le> b" and "2 ^ nat b \<le> n"
  shows "pow2 b \<le> (of_int n :: rat)"
proof -
  have "(of_int (2 ^ nat b) :: rat) \<le> of_int n"
    using assms(2) by (simp only: of_int_le_iff)
  then show ?thesis
    using assms(1) by (simp add: pow2_nonneg)
qed

lemma pow2_less_iff: "pow2 a < pow2 b \<longleftrightarrow> a < b"
proof
  assume "pow2 a < pow2 b"
  show "a < b"
  proof (rule ccontr)
    assume "\<not> a < b"
    then have "b \<le> a" by simp
    then have "pow2 b \<le> pow2 a"
      by (simp add: pow2_powi power_int_increasing)
    with \<open>pow2 a < pow2 b\<close> show False by simp
  qed
next
  assume "a < b"
  then show "pow2 a < pow2 b"
    by (simp add: pow2_powi power_int_strict_increasing)
qed

lemma pow2_le_iff: "pow2 a \<le> pow2 b \<longleftrightarrow> a \<le> b"
  using pow2_less_iff [of b a] by (simp add: not_less [symmetric])

lemma pow2_neg53: "pow2 (- 53) = 1 / 2 ^ 53"
  by (simp add: pow2_def)

section \<open>The binary exponent of a rational\<close>

lemma bit_length_bounds:
  "0 < n \<Longrightarrow> 1 \<le> bit_length n \<and> 2 ^ nat (bit_length n - 1) \<le> n \<and> n < 2 ^ nat (bit_length n)"
proof (induction n rule: bit_length.induct)
  case (1 n)
  show ?case
  proof (cases "n div 2 = 0")
    case True
    with "1.prems" have n: "n = 1" by presburger
    have "bit_length n = 1"
      unfolding n by (simp add: bit_length.simps)
    with n show ?thesis by simp
  next
    case False
    with "1.prems" have h: "0 < n div 2" by presburger
    from "1.prems" have nle: "\<not> n \<le> 0" by simp
    from "1.IH" [OF nle h]
    have b1: "1 \<le> bit_length (n div 2)"
      and lo: "2 ^ nat (bit_length (n div 2) - 1) \<le> n div 2"
      and hi: "n div 2 < 2 ^ nat (bit_length (n div 2))"
      by simp_all
    have bl: "bit_length n = 1 + bit_length (n div 2)"
      using nle by (subst bit_length.simps) simp
    have e1: "nat (bit_length n - 1) = Suc (nat (bit_length (n div 2) - 1))"
      using b1 bl by simp
    have e2: "nat (bit_length n) = Suc (nat (bit_length (n div 2)))"
      using b1 bl by simp
    have "2 * 2 ^ nat (bit_length (n div 2) - 1) \<le> n"
      using lo by presburger
    moreover have "n < 2 * 2 ^ nat (bit_length (n div 2))"
      using hi by presburger
    ultimately show ?thesis
      using b1 bl e1 e2 by simp
  qed
qed

lemma floor_log2_bounds:
  assumes "0 < a"
  shows "pow2 (floor_log2 a) \<le> a \<and> a < pow2 (floor_log2 a + 1)"
proof -
  obtain n d where q: "quotient_of a = (n, d)" by (cases "quotient_of a")
  then have d: "0 < d" and a: "a = of_int n / of_int d"
    by (simp_all add: quotient_of_denom_pos quotient_of_div)
  from assms a d have n: "0 < n"
    by (simp add: zero_less_divide_iff)
  define bn where "bn = bit_length n"
  define bd where "bd = bit_length d"
  define k where "k = bn - bd"
  from bit_length_bounds [OF n] have bn: "1 \<le> bn" "n < 2 ^ nat bn" "2 ^ nat (bn - 1) \<le> n"
    by (simp_all add: bn_def)
  from bit_length_bounds [OF d] have bd: "1 \<le> bd" "d < 2 ^ nat bd" "2 ^ nat (bd - 1) \<le> d"
    by (simp_all add: bd_def)
  have nr: "(of_int n :: rat) < pow2 bn"
    using bn by (intro of_int_less_pow2) simp_all
  have dr: "pow2 (bd - 1) \<le> (of_int d :: rat)"
    using bd by (intro pow2_le_of_int) simp_all
  have dpos: "(0::rat) < of_int d" using d by simp
  have "a * of_int d = of_int n" using a dpos by simp
  also have "\<dots> < pow2 bn" by (rule nr)
  also have "\<dots> = pow2 (k + 1) * pow2 (bd - 1)"
    by (simp add: pow2_add [symmetric] k_def)
  also have "\<dots> \<le> pow2 (k + 1) * of_int d"
    using dr pow2_pos [of "k + 1"] by simp
  finally have up: "a < pow2 (k + 1)" using dpos by simp
  have fl: "floor_log2 a = (if pow2 k \<le> a then k else k - 1)"
    by (simp add: floor_log2_def q k_def bn_def bd_def Let_def)
  show ?thesis
  proof (cases "pow2 k \<le> a")
    case True
    with fl up show ?thesis by simp
  next
    case False
    have nr': "pow2 (bn - 1) \<le> (of_int n :: rat)"
      using bn by (intro pow2_le_of_int) simp_all
    have dr': "(of_int d :: rat) < pow2 bd"
      using bd by (intro of_int_less_pow2) simp_all
    have "pow2 (k - 1) * of_int d \<le> pow2 (k - 1) * pow2 bd"
      using dr' pow2_pos [of "k - 1"] by simp
    also have "\<dots> = pow2 (bn - 1)"
      by (simp add: pow2_add [symmetric] k_def)
    also have "\<dots> \<le> of_int n" by (rule nr')
    also have "\<dots> = a * of_int d" using a dpos by simp
    finally have "pow2 (k - 1) \<le> a" using dpos by simp
    with False fl show ?thesis by simp
  qed
qed

lemma floor_log2_eqI:
  assumes "pow2 e \<le> a" and "a < pow2 (e + 1)"
  shows "floor_log2 a = e"
proof -
  have "0 < a" using assms(1) pow2_pos [of e] by simp
  from floor_log2_bounds [OF this]
  have lo: "pow2 (floor_log2 a) \<le> a" and hi: "a < pow2 (floor_log2 a + 1)" by simp_all
  from lo assms(2) have "pow2 (floor_log2 a) < pow2 (e + 1)" by simp
  then have "floor_log2 a < e + 1" by (simp only: pow2_less_iff)
  moreover from assms(1) hi have "pow2 e < pow2 (floor_log2 a + 1)" by simp
  then have "e < floor_log2 a + 1" by (simp only: pow2_less_iff)
  ultimately show ?thesis by simp
qed

section \<open>Rounding to a double\<close>

lemma round_half_even_diff: "\<bar>of_int (round_half_even q) - q\<bar> \<le> 1 / 2"
proof -
  have "of_int \<lfloor>q\<rfloor> \<le> q" and "q < of_int \<lfloor>q\<rfloor> + 1"
    by linarith+
  then show ?thesis
    by (auto simp: round_half_even_def Let_def abs_le_iff)
qed

lemma round_half_even_of_int: "round_half_even (of_int m) = m"
  by (simp add: round_half_even_def)

lemma round_half_even_ge: "of_int k \<le> q \<Longrightarrow> k \<le> round_half_even q"
proof -
  assume "of_int k \<le> q"
  then have "k \<le> \<lfloor>q\<rfloor>" by (simp add: le_floor_iff)
  then show ?thesis by (auto simp: round_half_even_def Let_def)
qed

lemma round_half_even_le: "q \<le> of_int k \<Longrightarrow> round_half_even q \<le> k"
proof -
  assume a: "q \<le> of_int k"
  then have f: "\<lfloor>q\<rfloor> \<le> k" by (simp add: floor_le_iff)
  show ?thesis
  proof (cases "q = of_int \<lfloor>q\<rfloor>")
    case True
    then have "q - of_int \<lfloor>q\<rfloor> = 0" by simp
    with f show ?thesis by (simp add: round_half_even_def Let_def)
  next
    case False
    then have "of_int \<lfloor>q\<rfloor> < q" using of_int_floor_le [of q] by linarith
    with a have "(of_int \<lfloor>q\<rfloor> :: rat) < of_int k" by linarith
    then have "\<lfloor>q\<rfloor> < k" by (simp only: of_int_less_iff)
    then show ?thesis by (auto simp: round_half_even_def Let_def)
  qed
qed

lemma round_double_normal:
  assumes "pow2 e \<le> q" and "q < pow2 (e + 1)" and "- 1022 \<le> e" and "e \<le> 1022"
  shows "round_double q = Finite (of_int (round_half_even (q / pow2 (e - 52))) * pow2 (e - 52))"
proof -
  have q: "0 < q" using assms(1) pow2_pos [of e] by simp
  have fl: "floor_log2 q = e" using assms(1,2) by (rule floor_log2_eqI)
  define y where "y = q / pow2 (e - 52)"
  define m where "m = round_half_even y"
  have pp: "0 < pow2 (e - 52)" by (rule pow2_pos)
  have "pow2 52 * pow2 (e - 52) \<le> q"
    using assms(1) by (simp add: pow2_add [symmetric])
  then have ylo: "of_int (2 ^ 52) \<le> y"
    using pp by (simp add: y_def pow2_nonneg le_divide_eq)
  have "pow2 53 * pow2 (e - 52) = pow2 (e + 1)"
    using pow2_add [of 53 "e - 52"] by (simp add: add.commute)
  then have "q < pow2 53 * pow2 (e - 52)"
    using assms(2) by simp
  then have yhi: "y \<le> of_int (2 ^ 53)"
    using pp by (simp add: y_def pow2_nonneg divide_le_eq)
  from ylo have mlo: "2 ^ 52 \<le> m" unfolding m_def by (rule round_half_even_ge)
  from yhi have mhi: "m \<le> 2 ^ 53" unfolding m_def by (rule round_half_even_le)
  have "of_int m * pow2 (e - 52) \<le> of_int (2 ^ 53) * pow2 (e - 52)"
    using mhi pp by (simp only: mult_le_cancel_right_pos of_int_le_iff)
  also have "\<dots> = pow2 (e + 1)"
    using pow2_add [of 53 "e - 52"] by (simp add: pow2_nonneg add.commute)
  also have "\<dots> < pow2 1024"
    using assms(4) by (simp only: pow2_less_iff)
  finally have v: "\<not> pow2 1024 \<le> of_int m * pow2 (e - 52)" by simp
  have m0: "m \<noteq> 0" using mlo by auto
  have mx: "max (e - 52) (- 1074) = e - 52" using assms(3) by simp
  show ?thesis
    using q v m0 unfolding round_double_def
    by (simp only: Let_def abs_of_pos fl mx m_def [symmetric] y_def [symmetric] if_False
        less_le_not_le [of q 0] less_imp_le) (simp add: m_def y_def)
qed

lemma round_double_exact:
  assumes "pow2 e \<le> q" and "q < pow2 (e + 1)" and "- 1022 \<le> e" and "e \<le> 1022"
    and "q / pow2 (e - 52) = of_int m"
  shows "round_double q = Finite q"
proof -
  have "round_double q = Finite (of_int (round_half_even (q / pow2 (e - 52))) * pow2 (e - 52))"
    using assms(1-4) by (rule round_double_normal)
  also have "round_half_even (q / pow2 (e - 52)) = m"
    by (simp only: assms(5) round_half_even_of_int)
  also have "of_int m * pow2 (e - 52) = q"
    using assms(5) [symmetric] pow2_pos [of "e - 52"] by simp
  finally show ?thesis .
qed

lemma round_double_rel:
  assumes "pow2 (- 1022) \<le> q" and "q < pow2 1023"
  shows "\<exists>v. round_double q = Finite v \<and> 0 < v \<and> \<bar>v - q\<bar> \<le> q / 2 ^ 53"
proof -
  have q: "0 < q" using assms(1) pow2_pos [of "- 1022"] by simp
  define e where "e = floor_log2 q"
  from floor_log2_bounds [OF q] have lo: "pow2 e \<le> q" and hi: "q < pow2 (e + 1)"
    by (simp_all add: e_def)
  from assms(1) hi have "pow2 (- 1022) < pow2 (e + 1)" by simp
  then have e1: "- 1022 \<le> e" by (simp add: pow2_less_iff)
  from lo assms(2) have "pow2 e < pow2 1023" by simp
  then have e2: "e \<le> 1022" by (simp add: pow2_less_iff)
  define p where "p = pow2 (e - 52)"
  define m where "m = round_half_even (q / p)"
  have p: "0 < p" unfolding p_def by (rule pow2_pos)
  have rd: "round_double q = Finite (of_int m * p)"
    unfolding m_def p_def using lo hi e1 e2 by (rule round_double_normal)
  have "pow2 e = pow2 52 * p"
    unfolding p_def using pow2_add [of 52 "e - 52"] by simp
  then have pe: "2 ^ 52 * p \<le> q"
    using lo by (simp add: pow2_nonneg)
  have "\<bar>of_int m - q / p\<bar> \<le> 1 / 2"
    unfolding m_def by (rule round_half_even_diff)
  then have "\<bar>of_int m - q / p\<bar> * p \<le> 1 / 2 * p"
    using p by (simp only: mult_le_cancel_right_pos)
  moreover have "\<bar>of_int m - q / p\<bar> * p = \<bar>of_int m * p - q\<bar>"
  proof -
    have "\<bar>of_int m - q / p\<bar> * p = \<bar>(of_int m - q / p) * p\<bar>"
      using p by (simp add: abs_mult)
    also have "(of_int m - q / p) * p = of_int m * p - q"
      using p by (simp add: left_diff_distrib)
    finally show ?thesis .
  qed
  ultimately have d: "\<bar>of_int m * p - q\<bar> \<le> p / 2" by simp
  have "p / 2 \<le> q / 2 ^ 53"
    using pe by (simp add: field_simps)
  with d have err: "\<bar>of_int m * p - q\<bar> \<le> q / 2 ^ 53" by simp
  have "q / 2 ^ 53 < q" using q by (simp add: field_simps)
  with err have "0 < of_int m * p" by linarith
  with rd err show ?thesis by blast
qed

lemma round_double_int:
  assumes "0 < n" and "n < 2 ^ 53"
  shows "round_double (of_int n) = Finite (of_int n)"
proof -
  define q :: rat where "q = of_int n"
  have q: "0 < q" using assms(1) by (simp add: q_def)
  define e where "e = floor_log2 q"
  from floor_log2_bounds [OF q] have lo: "pow2 e \<le> q" and hi: "q < pow2 (e + 1)"
    by (simp_all add: e_def)
  have "pow2 0 \<le> q" using assms(1) by (simp add: q_def pow2_def)
  with hi have "pow2 0 < pow2 (e + 1)" by simp
  then have e1: "0 \<le> e" by (simp add: pow2_less_iff)
  have "q < pow2 53"
    unfolding q_def using assms(2) by (intro of_int_less_pow2) simp_all
  with lo have "pow2 e < pow2 53" by simp
  then have e2: "e \<le> 52" by (simp add: pow2_less_iff)
  have "pow2 (52 - e) * pow2 (e - 52) = 1"
    using pow2_add [of "52 - e" "e - 52"] by (simp add: pow2_def)
  then have "q / pow2 (e - 52) = q * pow2 (52 - e)"
    using pow2_pos [of "e - 52"] by (simp add: field_simps)
  also have "\<dots> = of_int (n * 2 ^ nat (52 - e))"
    using e2 by (simp add: q_def pow2_nonneg)
  finally have ex: "q / pow2 (e - 52) = of_int (n * 2 ^ nat (52 - e))" .
  from e1 have e1': "- 1022 \<le> e" by simp
  from e2 have e2': "e \<le> 1022" by simp
  from lo hi e1' e2' ex have "round_double q = Finite q"
    by (rule round_double_exact)
  then show ?thesis by (simp add: q_def)
qed

lemma Number_add_int:
  assumes "0 \<le> a" and "0 \<le> b" and "a + b < 2 ^ 53"
  shows "Number_add (Finite (of_int a)) (Finite (of_int b)) = Finite (of_int (a + b))"
proof (cases "a + b = 0")
  case True
  with assms have "a = 0" "b = 0" by simp_all
  then show ?thesis by (simp add: Number_add_def round_double_def)
next
  case False
  with assms have "0 < a + b" by simp
  then have "round_double (of_int (a + b)) = Finite (of_int (a + b))"
    using assms(3) by (rule round_double_int)
  then show ?thesis by (simp add: Number_add_def)
qed

lemma divide_by_zero:
  "is_zero y \<Longrightarrow> Number_divide x y = NaN \<or> Number_divide x y = Infinity \<or>
     Number_divide x y = NegInfinity"
  by (cases x; cases y) (auto simp: Number_divide_def signed_infinity_def)

lemma times_100_non_finite:
  "x = NaN \<or> x = Infinity \<or> x = NegInfinity \<Longrightarrow>
   Number_multiply x (Finite 100) = NaN \<or> Number_multiply x (Finite 100) = Infinity \<or>
     Number_multiply x (Finite 100) = NegInfinity"
  by (auto simp: Number_multiply_def signed_infinity_def)

lemma Number_add_NaN: "Number_add NaN y = NaN" "Number_add x NaN = NaN"
  by (simp_all add: Number_add_def)

section \<open>The digits \<open>toFixed\<close> prints\<close>

lemma toFixed_nonneg:
  "0 \<le> x \<Longrightarrow> x < 10 ^ 21 \<Longrightarrow> f \<le> 100 \<Longrightarrow>
   toFixed (Finite x) f = Inr (Text (point_string f \<lfloor>x * 10 ^ f + 1 / 2\<rfloor>))"
  by (simp add: toFixed_def fixed_digits_def)

lemma nearest_integer_diff: "\<bar>of_int \<lfloor>X + 1 / 2\<rfloor> - X\<bar> \<le> (1 / 2 :: rat)"
proof -
  have "of_int \<lfloor>X + 1 / 2\<rfloor> \<le> X + 1 / 2" and "X + 1 / 2 < of_int \<lfloor>X + 1 / 2\<rfloor> + 1"
    by linarith+
  then show ?thesis by linarith
qed

lemma digit_char_cases:
  assumes "d < 10"
  shows "digit_of_char (digit_char d) = int d \<and> is_digit (digit_char d)"
proof -
  from assms consider "d = 0" | "d = 1" | "d = 2" | "d = 3" | "d = 4"
    | "d = 5" | "d = 6" | "d = 7" | "d = 8" | "d = 9"
    by atomize_elim presburger
  then show ?thesis
    by cases (simp_all add: digit_char_def digit_of_char_def is_digit_def)
qed

lemma is_digit_not_point: "is_digit c \<Longrightarrow> c \<noteq> CHR ''.''"
  by (auto simp: is_digit_def)

lemma digits_value_snoc: "digits_value (cs @ [c]) = 10 * digits_value cs + digit_of_char c"
  by (simp add: digits_value_def)

lemma digits_value_zeros: "digits_value (replicate k (CHR ''0'') @ cs) = digits_value cs"
proof -
  have "foldl (\<lambda>a c. 10 * a + digit_of_char c) 0 (replicate k (CHR ''0'')) = 0"
    by (induction k) (simp_all add: digit_of_char_def)
  then show ?thesis by (simp add: digits_value_def)
qed

lemma digits_props:
  "0 \<le> n \<Longrightarrow> digits_value (digits n) = n \<and> list_all is_digit (digits n) \<and> digits n \<noteq> []"
proof (induction n rule: digits.induct)
  case (1 n)
  show ?case
  proof (cases "n < 10")
    case True
    with "1.prems" have "nat n < 10" by simp
    from digit_char_cases [OF this] "1.prems" True show ?thesis
      by (subst (1 2 3) digits.simps) (auto simp: digits_value_def)
  next
    case False
    then have "0 \<le> n div 10" by simp
    from "1.IH" [OF False this]
    have ih: "digits_value (digits (n div 10)) = n div 10"
      "list_all is_digit (digits (n div 10))" by simp_all
    have "nat (n mod 10) < 10" by simp
    from digit_char_cases [OF this]
    have dc: "digit_of_char (digit_char (nat (n mod 10))) = n mod 10"
      "is_digit (digit_char (nat (n mod 10)))" by simp_all
    have eq: "digits n = digits (n div 10) @ [digit_char (nat (n mod 10))]"
      using False by (subst digits.simps) simp
    show ?thesis
      unfolding eq using ih dc by (auto simp: digits_value_snoc)
  qed
qed

lemma parts_no_point:
  assumes "list_all is_digit cs"
  shows "integer_part cs = cs \<and> fraction_part cs = []"
proof -
  have na: "\<forall>x\<in>set cs. x \<noteq> CHR ''.''"
    using assms by (auto simp: list_all_iff dest: is_digit_not_point)
  have tw: "takeWhile (\<lambda>c. c \<noteq> CHR ''.'') cs = cs"
    using na by (simp add: takeWhile_eq_all_conv)
  have dw: "dropWhile (\<lambda>c. c \<noteq> CHR ''.'') cs = []"
    using na by (simp add: dropWhile_eq_Nil_conv)
  show ?thesis
    unfolding integer_part_def fraction_part_def tw dw by simp
qed

lemma parts_point:
  assumes "list_all is_digit a"
  shows "integer_part (a @ ''.'' @ b) = a \<and> fraction_part (a @ ''.'' @ b) = b"
proof -
  have na: "\<forall>x\<in>set a. x \<noteq> CHR ''.''"
    using assms by (auto simp: list_all_iff dest: is_digit_not_point)
  have tw: "takeWhile (\<lambda>c. c \<noteq> CHR ''.'') (a @ CHR ''.'' # b) = a"
    using na by (simp add: takeWhile_append2)
  have dw: "dropWhile (\<lambda>c. c \<noteq> CHR ''.'') (a @ CHR ''.'' # b) = CHR ''.'' # b"
    using na by (simp add: dropWhile_append2)
  show ?thesis
    by (simp add: integer_part_def fraction_part_def tw dw)
qed

lemma point_string_eq:
  "f \<noteq> 0 \<Longrightarrow> m = (if n = 0 then ''0'' else digits n) \<Longrightarrow>
   m' = (if length m \<le> f then replicate (f + 1 - length m) (CHR ''0'') else []) @ m \<Longrightarrow>
   point_string f n = take (length m' - f) m' @ ''.'' @ drop (length m' - f) m'"
  by (simp add: point_string_def Let_def)

lemma point_string_parts:
  assumes "0 \<le> n"
  shows "integer_part (point_string f n) \<noteq> [] \<and>
         list_all is_digit (integer_part (point_string f n) @ fraction_part (point_string f n)) \<and>
         length (fraction_part (point_string f n)) = f \<and>
         digits_value (integer_part (point_string f n) @ fraction_part (point_string f n)) = n"
proof -
  define m where "m = (if n = 0 then ''0'' else digits n)"
  have "digits 0 = ''0''"
    by (simp add: digits.simps digit_char_def)
  then have md: "m = digits n"
    by (simp add: m_def)
  have m: "digits_value m = n" "list_all is_digit m" "m \<noteq> []"
    unfolding md using digits_props [OF assms] by blast+
  show ?thesis
  proof (cases "f = 0")
    case True
    then have ps: "point_string f n = m"
      by (simp add: point_string_def m_def)
    from parts_no_point [OF m(2)]
    have ip: "integer_part (point_string f n) = m"
      and fp: "fraction_part (point_string f n) = []"
      by (simp_all only: ps)
    show ?thesis
      unfolding ip fp by (simp add: m True)
  next
    case False
    define z where "z = (if length m \<le> f then replicate (f + 1 - length m) (CHR ''0'') else [])"
    define m' where "m' = z @ m"
    define a where "a = take (length m' - f) m'"
    define b where "b = drop (length m' - f) m'"
    have v: "digits_value m' = n"
      using m(1) digits_value_zeros [of "f + 1 - length m" m] by (simp add: m'_def z_def)
    have "is_digit (CHR ''0'')"
      by (simp add: is_digit_def)
    then have "list_all is_digit z"
      by (simp add: z_def list_all_iff)
    then have dg: "list_all is_digit m'"
      using m(2) by (simp add: m'_def)
    have len: "f < length m'"
      using m(3) by (simp add: m'_def z_def)
    have ab: "a @ b = m'" by (simp add: a_def b_def)
    have da: "list_all is_digit a"
      using dg by (auto simp: a_def list_all_iff dest: in_set_takeD)
    have a0: "a \<noteq> []" using len by (auto simp: a_def)
    have lb: "length b = f" using len by (simp add: b_def)
    have ps: "point_string f n = a @ ''.'' @ b"
      unfolding a_def b_def
      using False by (rule point_string_eq [where m = m and m' = m']) (simp_all only: m_def m'_def z_def)
    from parts_point [OF da, of b]
    have ip: "integer_part (point_string f n) = a"
      and fp: "fraction_part (point_string f n) = b"
      by (simp_all only: ps)
    show ?thesis
      unfolding ip fp ab by (simp add: a0 lb dg v)
  qed
qed

lemma shows_rounded_point_string:
  assumes "0 \<le> n" and "\<bar>of_int n / 10 ^ f - y\<bar> \<le> 1 / (2 * 10 ^ f)"
  shows "shows_rounded (Inr (Text (point_string f n))) f y"
  using point_string_parts [OF assms(1), of f] assms(2)
  by (simp add: shows_rounded_def decimal_value_def)

lemma nearest_unique:
  fixes n k :: int
  assumes "\<bar>(of_int n :: rat) / 10 ^ f - y\<bar> \<le> 1 / (2 * 10 ^ f)" and "y * 10 ^ f = of_int k"
  shows "n = k"
proof -
  define P :: rat where "P = 10 ^ f"
  have P: "0 < P" by (simp add: P_def)
  have y: "y = of_int k / P" using assms(2) P by (simp add: P_def field_simps)
  have "of_int n / P - y = (of_int n - of_int k) / P"
    by (simp add: y diff_divide_distrib)
  then have "\<bar>of_int n / P - y\<bar> = \<bar>of_int n - of_int k\<bar> / P"
    using P by (simp add: abs_divide)
  with assms(1) have "\<bar>of_int n - of_int k\<bar> / P \<le> (1 / 2) / P"
    by (simp add: P_def)
  then have "\<bar>(of_int n :: rat) - of_int k\<bar> \<le> 1 / 2"
    using P by (simp only: divide_le_cancel)
  then have "\<bar>(of_int (n - k) :: rat)\<bar> < of_int 1" by simp
  then have "(of_int \<bar>n - k\<bar> :: rat) < of_int 1" by (simp only: of_int_abs)
  then have "\<bar>n - k\<bar> < 1" by (simp only: of_int_less_iff)
  then show ?thesis by simp
qed

lemma toFixed_non_finite:
  "x = NaN \<or> x = Infinity \<or> x = NegInfinity \<Longrightarrow> f \<le> 100 \<Longrightarrow> non_finite_text (toFixed x f)"
  by (auto simp: toFixed_def non_finite_text_def)

section \<open>A count as a percentage of the total\<close>

lemma percent_value:
  fixes s t :: int
  assumes "0 < s" and "s < 10 ^ 12" and "0 < t" and "t \<le> 2 ^ 53"
  shows "\<exists>x. Number_multiply (Number_divide (Finite (of_int s)) (Finite (of_int t))) (Finite 100)
             = Finite x \<and> 0 < x \<and> x < 10 ^ 21 \<and>
           \<bar>x - 100 * of_int s / of_int t\<bar> \<le> (100 * of_int s / of_int t) * 3 / 2 ^ 53"
proof -
  define q :: rat where "q = of_int s / of_int t"
  have sr: "(1::rat) \<le> of_int s" using assms(1) by simp
  have sr2: "(of_int s :: rat) < 10 ^ 12"
    using assms(2) of_int_less_iff [of s "10 ^ 12", where ?'a = rat] by simp
  have tr: "(1::rat) \<le> of_int t" using assms(3) by simp
  have tr2: "(of_int t :: rat) \<le> 2 ^ 53"
    using assms(4) of_int_le_iff [of t "2 ^ 53", where ?'a = rat] by simp
  have q0: "0 < q" using sr tr by (simp add: q_def)
  have "(1::rat) / 2 ^ 53 \<le> 1 / of_int t"
    using tr tr2 by (intro frac_le) simp_all
  also have "\<dots> \<le> of_int s / of_int t"
    using sr tr by (intro divide_right_mono) simp_all
  finally have qlo: "1 / 2 ^ 53 \<le> q"
    by (simp add: q_def)
  have "q \<le> of_int s" using sr tr by (simp add: q_def field_simps mult_le_cancel_left1)
  with sr2 have qhi: "q < 10 ^ 12" by simp
  have p1: "pow2 (- 1022) \<le> pow2 (- 53)" by (simp add: pow2_le_iff)
  have p2: "pow2 50 < pow2 1023" by (simp add: pow2_less_iff)
  have p3: "pow2 50 = 2 ^ 50" by (simp add: pow2_def)
  have r1: "pow2 (- 1022) \<le> q" using p1 qlo by (simp add: pow2_neg53)
  have r2: "q < pow2 1023" using p2 qhi by (simp add: p3)
  from round_double_rel [OF r1 r2] obtain q1
    where q1: "round_double q = Finite q1" "0 < q1" "\<bar>q1 - q\<bar> \<le> q / 2 ^ 53"
    by blast
  have dv: "Number_divide (Finite (of_int s)) (Finite (of_int t)) = Finite q1"
    using assms(1,3) q1(1) by (simp add: Number_divide_def q_def)
  define c where "c = q / 2 ^ 53"
  have c: "0 \<le> c" "c \<le> q / 2" using q0 by (simp_all add: c_def)
  have q1c: "\<bar>q1 - q\<bar> \<le> c" using q1(3) by (simp only: c_def)
  have q1lo: "q / 2 \<le> q1" using q1c c by linarith
  have q1hi: "q1 \<le> 2 * q" using q1c c by linarith
  have r3: "pow2 (- 1022) \<le> q1 * 100"
    using p1 qlo q1lo by (simp add: pow2_neg53)
  have r4: "q1 * 100 < pow2 1023"
    using p2 qhi q1hi by (simp add: p3)
  from round_double_rel [OF r3 r4] obtain x
    where x: "round_double (q1 * 100) = Finite x" "0 < x" "\<bar>x - q1 * 100\<bar> \<le> q1 * 100 / 2 ^ 53"
    by blast
  have ml: "Number_multiply (Finite q1) (Finite 100) = Finite x"
    using q1(2) x(1) by (simp add: Number_multiply_def)
  have "\<bar>x - 100 * q\<bar> \<le> \<bar>x - q1 * 100\<bar> + 100 * \<bar>q1 - q\<bar>"
  proof -
    have "x - 100 * q = (x - q1 * 100) + 100 * (q1 - q)" by simp
    then have "\<bar>x - 100 * q\<bar> \<le> \<bar>x - q1 * 100\<bar> + \<bar>100 * (q1 - q)\<bar>"
      by (simp only: abs_triangle_ineq)
    moreover have "\<bar>100 * (q1 - q)\<bar> = 100 * \<bar>q1 - q\<bar>"
      by (simp only: abs_mult abs_numeral)
    ultimately show ?thesis by (simp only:)
  qed
  also have "\<dots> \<le> q1 * 100 / 2 ^ 53 + 100 * (q / 2 ^ 53)"
    using x(3) q1(3) by simp
  also have "\<dots> \<le> (2 * q) * 100 / 2 ^ 53 + 100 * (q / 2 ^ 53)"
    using q1hi by (simp add: field_simps)
  also have "\<dots> = (100 * q) * 3 / 2 ^ 53"
    by simp
  finally have err: "\<bar>x - 100 * q\<bar> \<le> (100 * q) * 3 / 2 ^ 53" .
  define c2 where "c2 = (100 * q) * 3 / 2 ^ 53"
  have c2: "c2 \<le> 100 * q" using q0 by (simp add: c2_def)
  have "\<bar>x - 100 * q\<bar> \<le> c2" using err by (simp only: c2_def)
  with c2 have "x \<le> 200 * q" by linarith
  with qhi have xhi: "x < 10 ^ 21" by simp
  have "100 * q = 100 * of_int s / of_int t" by (simp add: q_def)
  with dv ml x(2) xhi err show ?thesis by simp
qed

lemma percent_rounded:
  fixes s t :: int
  assumes "0 \<le> s" and "s < 10 ^ 12" and "0 < t" and "t \<le> 2 ^ 53" and "f \<le> 1"
  shows "\<exists>n. toFixed (Number_multiply (Number_divide (Finite (of_int s)) (Finite (of_int t)))
                    (Finite 100)) f = Inr (Text (point_string f n)) \<and>
             0 \<le> n \<and>
             \<bar>(of_int n :: rat) / 10 ^ f - 100 * of_int s / of_int t\<bar> \<le> 1 / (2 * 10 ^ f)"
proof (cases "s = 0")
  case True
  have "Number_multiply (Number_divide (Finite (of_int s)) (Finite (of_int t))) (Finite 100) = Finite 0"
    using assms(3) True by (simp add: Number_divide_def Number_multiply_def signed_zero_def)
  moreover have "\<lfloor>1 / 2 :: rat\<rfloor> = 0"
    by (rule floor_unique) simp_all
  then have "toFixed (Finite 0) f = Inr (Text (point_string f 0))"
    using assms(5) by (simp add: toFixed_def fixed_digits_def)
  ultimately show ?thesis using True by (intro exI [of _ 0]) simp
next
  case False
  with assms(1) have s: "0 < s" by simp
  define y :: rat where "y = 100 * of_int s / of_int t"
  from percent_value [OF s assms(2,3,4)] obtain x
    where ml: "Number_multiply (Number_divide (Finite (of_int s)) (Finite (of_int t))) (Finite 100)
                 = Finite x"
      and x0: "0 < x" and xhi: "x < 10 ^ 21" and err: "\<bar>x - y\<bar> \<le> y * 3 / 2 ^ 53"
    unfolding y_def by blast
  define P :: rat where "P = 10 ^ f"
  define Pi :: int where "Pi = 10 ^ f"
  have P: "1 \<le> P" "P \<le> 10" "P = of_int Pi"
    using assms(5) by (auto simp: P_def Pi_def le_Suc_eq)
  define n where "n = \<lfloor>x * P + 1 / 2\<rfloor>"
  have tf: "toFixed (Finite x) f = Inr (Text (point_string f n))"
    unfolding n_def P_def using x0 xhi assms(5) by (intro toFixed_nonneg) simp_all
  have n0: "0 \<le> n"
    unfolding n_def using x0 P(1) by (simp add: zero_le_floor)
  have tr: "(0::rat) < of_int t" using assms(3) by simp
  have sr: "(of_int s :: rat) < 10 ^ 12"
    using assms(2) of_int_less_iff [of s "10 ^ 12", where ?'a = rat] by simp
  have s0: "(0::rat) < of_int s" using s by simp
  have yt: "y * of_int t = 100 * of_int s" using tr by (simp add: y_def)
  have y0: "0 < y" using s0 tr by (simp add: y_def)
  have d1: "\<bar>of_int n - x * P\<bar> \<le> 1 / 2"
    unfolding n_def by (rule nearest_integer_diff)
  have "\<bar>x * P - y * P\<bar> = \<bar>x - y\<bar> * P"
    using P(1) by (simp add: left_diff_distrib [symmetric] abs_mult)
  also have "\<dots> \<le> (y * 3 / 2 ^ 53) * P"
    using err P(1) by (intro mult_right_mono) simp_all
  also have "\<dots> \<le> (y * 3 / 2 ^ 53) * 10"
    using P(2) y0 by (intro mult_left_mono) simp_all
  finally have d2: "\<bar>x * P - y * P\<bar> \<le> (y * 3 / 2 ^ 53) * 10" .
  have "(y * 3 / 2 ^ 53) * 10 * (2 * of_int t) = 6000 * of_int s / 2 ^ 53"
    using yt by (simp add: field_simps)
  also have "\<dots> < 1"
    using sr by simp
  finally have "(y * 3 / 2 ^ 53) * 10 * (2 * of_int t) < 1" .
  then have d3: "(y * 3 / 2 ^ 53) * 10 < 1 / (2 * of_int t)"
    using tr by (simp add: pos_less_divide_eq)
  define D where "D = of_int n - y * P"
  have "\<bar>D\<bar> \<le> \<bar>of_int n - x * P\<bar> + \<bar>x * P - y * P\<bar>"
    unfolding D_def by linarith
  with d1 d2 d3 have D: "\<bar>D\<bar> < 1 / 2 + 1 / (2 * of_int t)" by linarith
  define K :: int where "K = 2 * n * t - 200 * s * Pi"
  have K: "of_int K = 2 * of_int t * D"
  proof -
    have "2 * of_int t * D = 2 * of_int n * of_int t - 2 * (y * of_int t) * P"
      by (simp add: D_def algebra_simps)
    also have "\<dots> = 2 * of_int n * of_int t - 200 * of_int s * of_int Pi"
      by (simp add: yt P(3))
    finally show ?thesis by (simp add: K_def)
  qed
  have "\<bar>of_int K :: rat\<bar> = 2 * of_int t * \<bar>D\<bar>"
    using tr by (simp add: K abs_mult)
  also have "\<dots> < 2 * of_int t * (1 / 2 + 1 / (2 * of_int t))"
    using D tr by (intro mult_strict_left_mono) simp_all
  also have "\<dots> = of_int t + 1"
    using tr by (simp add: field_simps)
  finally have "\<bar>of_int K :: rat\<bar> < of_int (t + 1)" by simp
  then have "(of_int \<bar>K\<bar> :: rat) < of_int (t + 1)" by simp
  then have "\<bar>K\<bar> < t + 1" by (simp only: of_int_less_iff)
  then have "\<bar>K\<bar> \<le> t" by simp
  then have "(of_int \<bar>K\<bar> :: rat) \<le> of_int t" by (simp only: of_int_le_iff)
  then have "2 * of_int t * \<bar>D\<bar> \<le> of_int t * 1"
    using tr by (simp add: K abs_mult)
  then have "of_int t * (2 * \<bar>D\<bar>) \<le> of_int t * 1" by (simp add: mult_ac)
  then have "2 * \<bar>D\<bar> \<le> 1" using tr by (simp only: mult_le_cancel_left_pos)
  then have Dh: "\<bar>D\<bar> \<le> 1 / 2" by simp
  have Ppos: "0 < P" using P(1) by simp
  have "of_int n / P - y = D / P" using Ppos by (simp add: D_def field_simps)
  then have "\<bar>of_int n / P - y\<bar> = \<bar>D\<bar> / P" using Ppos by (simp add: abs_divide)
  also have "\<dots> \<le> (1 / 2) / P" using Dh Ppos by (intro divide_right_mono) simp_all
  finally have "\<bar>of_int n / P - y\<bar> \<le> 1 / (2 * P)" by simp
  with ml tf n0 show ?thesis
    unfolding P_def y_def by (intro exI [of _ n]) simp
qed

lemma percent_shows_rounded:
  fixes s t :: int
  assumes "0 \<le> s" and "s < 10 ^ 12" and "0 < t" and "t \<le> 2 ^ 53" and "f \<le> 1"
  shows "shows_rounded
           (toFixed (Number_multiply (Number_divide (Finite (of_int s)) (Finite (of_int t)))
                       (Finite 100)) f)
           f (100 * of_int s / of_int t)"
proof -
  from percent_rounded [OF assms] obtain n
    where "toFixed (Number_multiply (Number_divide (Finite (of_int s)) (Finite (of_int t)))
                    (Finite 100)) f = Inr (Text (point_string f n))"
      and "0 \<le> n"
      and "\<bar>(of_int n :: rat) / 10 ^ f - 100 * of_int s / of_int t\<bar> \<le> 1 / (2 * 10 ^ f)"
    by blast
  then show ?thesis by (simp add: shows_rounded_point_string)
qed

lemma percent_exact:
  fixes s t k :: int
  assumes "0 \<le> s" and "s < 10 ^ 12" and "0 < t" and "t \<le> 2 ^ 53" and "f \<le> 1"
    and "100 * of_int s / of_int t * 10 ^ f = (of_int k :: rat)"
  shows "toFixed (Number_multiply (Number_divide (Finite (of_int s)) (Finite (of_int t)))
                    (Finite 100)) f = Inr (Text (point_string f k))"
proof -
  from percent_rounded [OF assms(1-5)] obtain n
    where tf: "toFixed (Number_multiply (Number_divide (Finite (of_int s)) (Finite (of_int t)))
                    (Finite 100)) f = Inr (Text (point_string f n))"
      and "\<bar>(of_int n :: rat) / 10 ^ f - 100 * of_int s / of_int t\<bar> \<le> 1 / (2 * 10 ^ f)"
    by blast
  then have "n = k" using assms(6) by (intro nearest_unique)
  with tf show ?thesis by simp
qed

lemma percent_of_zero:
  "is_zero y \<Longrightarrow> f \<le> 100 \<Longrightarrow>
   non_finite_text (toFixed (Number_multiply (Number_divide x y) (Finite 100)) f)"
  by (intro toFixed_non_finite times_100_non_finite divide_by_zero)

lemma percent_of_NaN:
  "f \<le> 100 \<Longrightarrow> toFixed (Number_multiply (Number_divide NaN y) (Finite 100)) f = Inr (Text ''NaN'')"
  by (simp add: Number_divide_def Number_multiply_def toFixed_def)

lemma point_string_520: "point_string (Suc 0) 520 = ''52.0''"
  by (simp add: point_string_def Let_def digits.simps digit_char_def)

lemma point_string_480: "point_string (Suc 0) 480 = ''48.0''"
  by (simp add: point_string_def Let_def digits.simps digit_char_def)

lemma point_string_750: "point_string (Suc 0) 750 = ''75.0''"
  by (simp add: point_string_def Let_def digits.simps digit_char_def)

lemma point_string_31: "point_string 0 31 = ''31''"
  by (simp add: point_string_def Let_def digits.simps digit_char_def)

lemma snapshot_gender_femalePercent: "femalePercent snapshot_gender = Inr (Text ''52.0'')"
proof -
  have "toFixed (Number_multiply (Number_divide (Finite (of_int 520)) (Finite (of_int 1000)))
          (Finite 100)) 1 = Inr (Text (point_string 1 520))"
    by (rule percent_exact) simp_all
  then show ?thesis
    by (simp add: femalePercent_def snapshot_gender_def get_prop_def ToNumber_def point_string_520)
qed

lemma snapshot_gender_malePercent: "malePercent snapshot_gender = Inr (Text ''48.0'')"
proof -
  have "toFixed (Number_multiply (Number_divide (Finite (of_int 480)) (Finite (of_int 1000)))
          (Finite 100)) 1 = Inr (Text (point_string 1 480))"
    by (rule percent_exact) simp_all
  then show ?thesis
    by (simp add: malePercent_def snapshot_gender_def get_prop_def ToNumber_def point_string_480)
qed

lemma snapshot_gender_contactRate: "contactRate snapshot_gender = Inr (Text ''75.0'')"
proof -
  have "Number_add (Finite (of_int 150)) (Finite (of_int 600)) = Finite (of_int (150 + 600))"
    by (rule Number_add_int) simp_all
  moreover have "toFixed (Number_multiply (Number_divide (Finite (of_int 750)) (Finite (of_int 1000)))
          (Finite 100)) 1 = Inr (Text (point_string 1 750))"
    by (rule percent_exact) simp_all
  ultimately show ?thesis
    by (simp add: contactRate_def snapshot_gender_def point_string_750)
qed

lemma snapshot_gender_aging: "agingPopulationPercent snapshot_gender = Inr (Text ''31'')"
proof -
  have "Number_add (Finite (of_int 200)) (Finite (of_int 100)) = Finite (of_int (200 + 100))"
    by (rule Number_add_int) simp_all
  moreover have "Number_add (Finite (of_int 300)) (Finite (of_int 10)) = Finite (of_int (300 + 10))"
    by (rule Number_add_int) simp_all
  moreover have "toFixed (Number_multiply (Number_divide (Finite (of_int 310)) (Finite (of_int 1000)))
          (Finite 100)) 0 = Inr (Text (point_string 0 31))"
    by (rule percent_exact) simp_all
  ultimately show ?thesis
    by (simp add: agingPopulationPercent_def snapshot_gender_def get_prop_def ToNumber_def
        point_string_31)
qed

section \<open>Chart records\<close>

text \<open>
  C1 (amended).  The prescriber records are as many as the first 5 entries of
  \<open>prescriberStats\<close>, in the order of the mapping; record \<open>i\<close> is
  \<open>{ name, patients, fill }\<close>: its \<open>name\<close> is the key up to its first comma (the whole key
  when it has none), its \<open>patients\<close> is the count of the entry, and its \<open>fill\<close> is the
  palette colour at \<open>i mod 10\<close>.
\<close>

theorem prescriberData_records:
  "length (prescriberData d) = min 5 (length (prescriberStats d)) \<and>
   (\<forall>i < length (prescriberData d).
      prescriberData d ! i =
        [(''name'', JStr (takeWhile (\<lambda>c. c \<noteq> CHR '','') (fst (prescriberStats d ! i)))),
         (''patients'', JNum (snd (prescriberStats d ! i))),
         (''fill'', JStr (CHART_COLORS ! (i mod 10)))])"
  by (auto simp: prescriberData_def Object_entries_def nth_enumerate_eq first_part_split
      palette_get split: prod.splits)

theorem prescriberData_records_witness:
  "prescriberData snapshot_prescribers ! 0 =
     [(''name'', JStr ''Smith''), (''patients'', JNum (Finite 7)), (''fill'', JStr ''#00d4ff'')]"
  using prescriberData_records [of snapshot_prescribers]
  by (simp add: snapshot_prescribers_def CHART_COLORS_def COLORS_cyan_def)

text \<open>
  C1 as stated fails: a prescriber record has no \<open>value\<close> property, the count is under
  \<open>patients\<close>, so the record does not have the ChartRecord shape.
\<close>

theorem prescriberData_not_ChartRecord:
  "get_field (prescriberData snapshot_prescribers ! 0) ''value'' = Undefined \<and>
   \<not> spec_ChartRecord (prescriberData snapshot_prescribers ! 0)"
  by (simp add: prescriberData_def snapshot_prescribers_def Object_entries_def get_field_def
      spec_ChartRecord_def enumerate_eq_zip)

text \<open>
  C2 (amended).  The ethnicity records are as many as the first 6 entries of
  \<open>ethnicityDistribution\<close>, in the order of the mapping, with the count as \<open>value\<close> and the
  palette colour at \<open>i mod 10\<close> as \<open>fill\<close>.  The label clean-up removes the first
  occurrence of \<open>"White - "\<close> wherever it starts, then the first occurrence of
  \<open>"Asian or Asian British - "\<close> in what is left; a label holding neither literal is
  unchanged.
\<close>

theorem ethnicityData_records:
  "length (ethnicityData d) = min 6 (length (ethnicityDistribution d)) \<and>
   (\<forall>i < length (ethnicityData d).
      ethnicityData d ! i =
        [(''name'', JStr (ethnicityLabel (fst (ethnicityDistribution d ! i)))),
         (''value'', JNum (snd (ethnicityDistribution d ! i))),
         (''fill'', JStr (CHART_COLORS ! (i mod 10)))]) \<and>
   (\<forall>pre post.
      \<not> str_includes (pre @ ''White -'') ''White - '' \<longrightarrow>
      ethnicityLabel (pre @ ''White - '' @ post) =
        replace_first ''Asian or Asian British - '' '''' (pre @ post)) \<and>
   (\<forall>name pre post.
      \<not> str_includes name ''White - '' \<and> name = pre @ ''Asian or Asian British - '' @ post \<and>
      \<not> str_includes (pre @ ''Asian or Asian British -'') ''Asian or Asian British - '' \<longrightarrow>
      ethnicityLabel name = pre @ post) \<and>
   (\<forall>name.
      \<not> str_includes name ''White - '' \<and> \<not> str_includes name ''Asian or Asian British - '' \<longrightarrow>
      ethnicityLabel name = name)"
proof (intro conjI allI impI)
  show "length (ethnicityData d) = min 6 (length (ethnicityDistribution d))"
    by (simp add: ethnicityData_def Object_entries_def)
next
  fix i assume "i < length (ethnicityData d)"
  then show "ethnicityData d ! i =
        [(''name'', JStr (ethnicityLabel (fst (ethnicityDistribution d ! i)))),
         (''value'', JNum (snd (ethnicityDistribution d ! i))),
         (''fill'', JStr (CHART_COLORS ! (i mod 10)))]"
    by (auto simp: ethnicityData_def Object_entries_def nth_enumerate_eq palette_get
        split: prod.splits)
next
  fix pre post :: string
  assume "\<not> str_includes (pre @ ''White -'') ''White - ''"
  then have "replace_first ''White - '' '''' (pre @ ''White - '' @ post) = pre @ '''' @ post"
    by (intro replace_first_occurrence) simp
  then show "ethnicityLabel (pre @ ''White - '' @ post) =
        replace_first ''Asian or Asian British - '' '''' (pre @ post)"
    by (simp add: ethnicityLabel_def)
next
  fix name pre post :: string
  assume a: "\<not> str_includes name ''White - '' \<and> name = pre @ ''Asian or Asian British - '' @ post \<and>
      \<not> str_includes (pre @ ''Asian or Asian British -'') ''Asian or Asian British - ''"
  from a have nw: "\<not> str_includes name ''White - ''"
    by (rule conjunct1)
  from a have name: "name = pre @ ''Asian or Asian British - '' @ post"
    by (rule conjunct2 [THEN conjunct1])
  from a have "\<not> str_includes (pre @ ''Asian or Asian British -'') ''Asian or Asian British - ''"
    by (rule conjunct2 [THEN conjunct2])
  then have na: "\<not> str_includes (pre @ butlast ''Asian or Asian British - '') ''Asian or Asian British - ''"
    by simp
  have "replace_first ''White - '' '''' name = name"
    using nw by (rule replace_first_absent)
  moreover have "replace_first ''Asian or Asian British - '' '''' name = pre @ '''' @ post"
    unfolding name using na by (rule replace_first_occurrence)
  ultimately show "ethnicityLabel name = pre @ post"
    by (simp add: ethnicityLabel_def)
next
  fix name :: string
  assume "\<not> str_includes name ''White - '' \<and> \<not> str_includes name ''Asian or Asian British - ''"
  then show "ethnicityLabel name = name"
    by (simp add: ethnicityLabel_fixed_iff)
qed

theorem ethnicityData_records_witness:
  "ethnicityData snapshot_ethnicity ! 0 =
     [(''name'', JStr ''British''), (''value'', JNum (Finite 6)), (''fill'', JStr ''#00d4ff'')] \<and>
   ethnicityLabel ''White - British'' = ''British'' \<and>
   ethnicityLabel ''Asian or Asian British - Indian'' = ''Indian'' \<and>
   ethnicityLabel ''Mixed - White and Asian'' = ''Mixed - White and Asian''"
proof -
  note t = ethnicityData_records [of snapshot_ethnicity]
  have "0 < length (ethnicityData snapshot_ethnicity)"
    using t by (simp add: snapshot_ethnicity_def)
  with t have r: "ethnicityData snapshot_ethnicity ! 0 =
      [(''name'', JStr (ethnicityLabel (fst (ethnicityDistribution snapshot_ethnicity ! 0)))),
       (''value'', JNum (snd (ethnicityDistribution snapshot_ethnicity ! 0))),
       (''fill'', JStr (CHART_COLORS ! (0 mod 10)))]"
    by blast
  have w: "\<not> str_includes ('''' @ ''White -'') ''White - ''"
    by simp
  with t have "ethnicityLabel ('''' @ ''White - '' @ ''British'') =
      replace_first ''Asian or Asian British - '' '''' ('''' @ ''British'')"
    by blast
  then have l1: "ethnicityLabel ''White - British'' = ''British''"
    by simp
  have "\<not> str_includes ''Asian or Asian British - Indian'' ''White - '' \<and>
      ''Asian or Asian British - Indian'' = '''' @ ''Asian or Asian British - '' @ ''Indian'' \<and>
      \<not> str_includes ('''' @ ''Asian or Asian British -'') ''Asian or Asian British - ''"
    by simp
  with t have "ethnicityLabel ''Asian or Asian British - Indian'' = '''' @ ''Indian''"
    by blast
  then have l2: "ethnicityLabel ''Asian or Asian British - Indian'' = ''Indian''"
    by simp
  have "\<not> str_includes ''Mixed - White and Asian'' ''White - '' \<and>
      \<not> str_includes ''Mixed - White and Asian'' ''Asian or Asian British - ''"
    by simp
  with t have l3: "ethnicityLabel ''Mixed - White and Asian'' = ''Mixed - White and Asian''"
    by blast
  from r l1 l2 l3 show ?thesis
    by (simp add: snapshot_ethnicity_def CHART_COLORS_def COLORS_cyan_def)
qed

text \<open>
  C2 as stated fails: a label that holds \<open>"White - "\<close> elsewhere than at its start is
  changed too.
\<close>

theorem ethnicityLabel_not_prefix_only:
  "\<not> prefix ''White - '' ''Other White - Irish'' \<and>
   ethnicityLabel ''Other White - Irish'' = ''Other Irish'' \<and>
   get_field (ethnicityData snapshot_ethnicity ! 1) ''name'' = JStr ''Other Irish''"
  by (simp add: ethnicityLabel_def snapshot_ethnicity_def ethnicityData_def Object_entries_def
      get_field_def enumerate_eq_zip)

text \<open>
  C3 (amended).  Cleaning a label a second time changes nothing exactly when the label
  cleaned once holds neither \<open>"White - "\<close> nor \<open>"Asian or Asian British - "\<close>.
\<close>

theorem ethnicityLabel_idempotent_iff:
  "ethnicityLabel (ethnicityLabel name) = ethnicityLabel name \<longleftrightarrow>
     \<not> str_includes (ethnicityLabel name) ''White - '' \<and>
     \<not> str_includes (ethnicityLabel name) ''Asian or Asian British - ''"
  by (rule ethnicityLabel_fixed_iff)

theorem ethnicityLabel_idempotent_iff_witness:
  "ethnicityLabel (ethnicityLabel ''White - British'') = ethnicityLabel ''White - British''"
  using ethnicityLabel_idempotent_iff [of "''White - British''"]
  by (simp add: ethnicityLabel_def)

text \<open>
  C3 as stated fails: from \<open>"White - White - British"\<close> one clean-up leaves
  \<open>"White - British"\<close> and the second leaves \<open>"British"\<close>.
\<close>

theorem ethnicityLabel_not_idempotent:
  "ethnicityLabel ''White - White - British'' = ''White - British'' \<and>
   ethnicityLabel (ethnicityLabel ''White - White - British'') = ''British''"
  by (simp add: ethnicityLabel_def)

text \<open>
  C4.  The contact records are exactly three, Mobile Phone, Home Phone and No Contact in
  this order, coloured cyan, purple and pink, and their values are the fields
  \<open>mobilePhone\<close>, \<open>homePhone\<close> and \<open>noContact\<close> of \<open>contactAvailability\<close>, which are read
  by name.
\<close>

theorem contactData_fixed:
  "contactData d =
     [[(''name'', JStr ''Mobile Phone''), (''value'', JNum (mobilePhone (contactAvailability d))),
       (''fill'', JStr COLORS_cyan)],
      [(''name'', JStr ''Home Phone''), (''value'', JNum (homePhone (contactAvailability d))),
       (''fill'', JStr COLORS_purple)],
      [(''name'', JStr ''No Contact''), (''value'', JNum (noContact (contactAvailability d))),
       (''fill'', JStr COLORS_pink)]] \<and>
   length (contactData d) = 3 \<and>
   map (\<lambda>r. get_field r ''value'')
     (contactData (d\<lparr>contactAvailability :=
        \<lparr>homePhone = h, mobilePhone = m, noContact = n\<rparr>\<rparr>)) = [JNum m, JNum h, JNum n] \<and>
   COLORS_cyan = ''#00d4ff'' \<and> COLORS_purple = ''#a855f7'' \<and> COLORS_pink = ''#ec4899''"
  by (simp add: contactData_def get_field_def COLORS_cyan_def COLORS_purple_def COLORS_pink_def)

text \<open>
  C5.  There is one gender record per entry of \<open>genderDistribution\<close>, in the order of the
  mapping; its value is the count of the entry and its colour depends on the label only:
  pink for \<open>Female\<close>, cyan for \<open>Male\<close>, purple for any other label.
\<close>

theorem genderData_records:
  "length (genderData d) = length (genderDistribution d) \<and>
   (\<forall>i < length (genderDistribution d).
      genderData d ! i =
        [(''name'', JStr (fst (genderDistribution d ! i))),
         (''value'', JNum (snd (genderDistribution d ! i))),
         (''fill'', JStr (if fst (genderDistribution d ! i) = ''Female'' then COLORS_pink
                          else if fst (genderDistribution d ! i) = ''Male'' then COLORS_cyan
                          else COLORS_purple))])"
  by (auto simp: genderData_def Object_entries_def split: prod.splits)

theorem genderData_records_witness:
  "genderData snapshot_third_gender ! 1 =
     [(''name'', JStr ''Unknown''), (''value'', JNum (Finite 1)), (''fill'', JStr ''#a855f7'')]"
proof -
  note t = genderData_records [of snapshot_third_gender]
  have "1 < length (genderDistribution snapshot_third_gender)"
    by (simp add: snapshot_third_gender_def)
  with t have "genderData snapshot_third_gender ! 1 =
      [(''name'', JStr (fst (genderDistribution snapshot_third_gender ! 1))),
       (''value'', JNum (snd (genderDistribution snapshot_third_gender ! 1))),
       (''fill'', JStr (if fst (genderDistribution snapshot_third_gender ! 1) = ''Female''
                        then COLORS_pink
                        else if fst (genderDistribution snapshot_third_gender ! 1) = ''Male''
                        then COLORS_cyan else COLORS_purple))]"
    by blast
  then show ?thesis
    by (simp add: snapshot_third_gender_def COLORS_purple_def)
qed

text \<open>
  C6.  The values of the gender records are the counts of \<open>genderDistribution\<close>, one for
  one, so their total is the total of the counts.
\<close>

theorem genderData_sum:
  "map (\<lambda>r. number_of (get_field r ''value'')) (genderData d) = map snd (genderDistribution d) \<and>
   sum_numbers (map (\<lambda>r. number_of (get_field r ''value'')) (genderData d)) =
     sum_numbers (map snd (genderDistribution d))"
proof -
  have "map (\<lambda>r. number_of (get_field r ''value'')) (genderData d) = map snd (genderDistribution d)"
    by (auto simp: genderData_def Object_entries_def get_field_def number_of_def)
  then show ?thesis by simp
qed

section \<open>Percentages\<close>

text \<open>
  C7.  With \<open>Female\<close> and \<open>Male\<close> present, \<open>femalePercent\<close> and \<open>malePercent\<close> are the
  count divided by \<open>totalPatients\<close>, times 100, printed by \<open>toFixed(1)\<close>, and
  \<open>contactRate\<close> is the same for \<open>homePhone + mobilePhone\<close>; the operators are those of
  binary64 numbers.  For counts that are integers below \<open>10^12\<close> and a positive integer
  \<open>totalPatients\<close> of at most \<open>2^53\<close>, the text printed has one digit after the
  point and differs from the exact quotient times 100 by at most \<open>0.05\<close>: it is the
  percentage rounded to one decimal place.  For 520 and 480 of 1000 the texts are
  \<open>52.0\<close> and \<open>48.0\<close>, and for 150 + 600 of 1000 the contact rate is \<open>75.0\<close>.
\<close>

theorem derived_percentages:
  "(\<forall>fe. get_prop (genderDistribution d) ''Female'' = Some fe \<longrightarrow>
      femalePercent d =
        toFixed (Number_multiply (Number_divide fe (totalPatients d)) (Finite 100)) 1) \<and>
   (\<forall>ma. get_prop (genderDistribution d) ''Male'' = Some ma \<longrightarrow>
      malePercent d =
        toFixed (Number_multiply (Number_divide ma (totalPatients d)) (Finite 100)) 1) \<and>
   contactRate d =
     toFixed (Number_multiply
                (Number_divide (Number_add (homePhone (contactAvailability d))
                                           (mobilePhone (contactAvailability d)))
                   (totalPatients d))
                (Finite 100)) 1 \<and>
   (\<forall>t a. totalPatients d = Finite (of_int t) \<and> 0 < t \<and> t \<le> 2 ^ 53 \<and>
      get_prop (genderDistribution d) ''Female'' = Some (Finite (of_int a)) \<and>
      0 \<le> a \<and> a < 10 ^ 12 \<longrightarrow>
      shows_rounded (femalePercent d) 1 (100 * of_int a / of_int t)) \<and>
   (\<forall>t b. totalPatients d = Finite (of_int t) \<and> 0 < t \<and> t \<le> 2 ^ 53 \<and>
      get_prop (genderDistribution d) ''Male'' = Some (Finite (of_int b)) \<and>
      0 \<le> b \<and> b < 10 ^ 12 \<longrightarrow>
      shows_rounded (malePercent d) 1 (100 * of_int b / of_int t)) \<and>
   (\<forall>t h m. totalPatients d = Finite (of_int t) \<and> 0 < t \<and> t \<le> 2 ^ 53 \<and>
      homePhone (contactAvailability d) = Finite (of_int h) \<and>
      mobilePhone (contactAvailability d) = Finite (of_int m) \<and>
      0 \<le> h \<and> 0 \<le> m \<and> h + m < 10 ^ 12 \<longrightarrow>
      shows_rounded (contactRate d) 1 (100 * of_int (h + m) / of_int t)) \<and>
   femalePercent snapshot_gender = Inr (Text ''52.0'') \<and>
   malePercent snapshot_gender = Inr (Text ''48.0'') \<and>
   contactRate snapshot_gender = Inr (Text ''75.0'')"
proof (intro conjI allI impI)
  fix fe assume "get_prop (genderDistribution d) ''Female'' = Some fe"
  then show "femalePercent d =
      toFixed (Number_multiply (Number_divide fe (totalPatients d)) (Finite 100)) 1"
    by (simp add: femalePercent_def ToNumber_def)
next
  fix ma assume "get_prop (genderDistribution d) ''Male'' = Some ma"
  then show "malePercent d =
      toFixed (Number_multiply (Number_divide ma (totalPatients d)) (Finite 100)) 1"
    by (simp add: malePercent_def ToNumber_def)
next
  show "contactRate d =
     toFixed (Number_multiply
                (Number_divide (Number_add (homePhone (contactAvailability d))
                                           (mobilePhone (contactAvailability d)))
                   (totalPatients d))
                (Finite 100)) 1"
    by (simp add: contactRate_def)
next
  fix t a :: int
  assume a: "totalPatients d = Finite (of_int t) \<and> 0 < t \<and> t \<le> 2 ^ 53 \<and>
      get_prop (genderDistribution d) ''Female'' = Some (Finite (of_int a)) \<and>
      0 \<le> a \<and> a < 10 ^ 12"
  then have "shows_rounded
      (toFixed (Number_multiply (Number_divide (Finite (of_int a)) (Finite (of_int t)))
         (Finite 100)) 1) 1 (100 * of_int a / of_int t)"
    by (intro percent_shows_rounded) simp_all
  with a show "shows_rounded (femalePercent d) 1 (100 * of_int a / of_int t)"
    by (simp add: femalePercent_def ToNumber_def)
next
  fix t b :: int
  assume a: "totalPatients d = Finite (of_int t) \<and> 0 < t \<and> t \<le> 2 ^ 53 \<and>
      get_prop (genderDistribution d) ''Male'' = Some (Finite (of_int b)) \<and>
      0 \<le> b \<and> b < 10 ^ 12"
  then have "shows_rounded
      (toFixed (Number_multiply (Number_divide (Finite (of_int b)) (Finite (of_int t)))
         (Finite 100)) 1) 1 (100 * of_int b / of_int t)"
    by (intro percent_shows_rounded) simp_all
  with a show "shows_rounded (malePercent d) 1 (100 * of_int b / of_int t)"
    by (simp add: malePercent_def ToNumber_def)
next
  fix t h m :: int
  assume a: "totalPatients d = Finite (of_int t) \<and> 0 < t \<and> t \<le> 2 ^ 53 \<and>
      homePhone (contactAvailability d) = Finite (of_int h) \<and>
      mobilePhone (contactAvailability d) = Finite (of_int m) \<and>
      0 \<le> h \<and> 0 \<le> m \<and> h + m < 10 ^ 12"
  then have "Number_add (Finite (of_int h)) (Finite (of_int m)) = Finite (of_int (h + m))"
    by (intro Number_add_int) simp_all
  moreover from a have "shows_rounded
      (toFixed (Number_multiply (Number_divide (Finite (of_int (h + m))) (Finite (of_int t)))
         (Finite 100)) 1) 1 (100 * of_int (h + m) / of_int t)"
    by (intro percent_shows_rounded) simp_all
  ultimately show "shows_rounded (contactRate d) 1 (100 * of_int (h + m) / of_int t)"
    using a by (simp add: contactRate_def)
qed (rule snapshot_gender_femalePercent snapshot_gender_malePercent snapshot_gender_contactRate)+

theorem derived_percentages_witness:
  "shows_rounded (femalePercent snapshot_gender) 1 52 \<and>
   shows_rounded (malePercent snapshot_gender) 1 48 \<and>
   shows_rounded (contactRate snapshot_gender) 1 75 \<and>
   femalePercent snapshot_gender =
     toFixed (Number_multiply (Number_divide (Finite 520) (Finite 1000)) (Finite 100)) 1 \<and>
   malePercent snapshot_gender =
     toFixed (Number_multiply (Number_divide (Finite 480) (Finite 1000)) (Finite 100)) 1"
proof -
  note t = derived_percentages [of snapshot_gender]
  have f: "get_prop (genderDistribution snapshot_gender) ''Female'' = Some (Finite 520)"
    and m: "get_prop (genderDistribution snapshot_gender) ''Male'' = Some (Finite 480)"
    by (simp_all add: snapshot_gender_def get_prop_def)
  have tp: "totalPatients snapshot_gender = Finite 1000"
    by (simp add: snapshot_gender_def)
  have "totalPatients snapshot_gender = Finite (of_int 1000) \<and> (0::int) < 1000 \<and>
      (1000::int) \<le> 2 ^ 53 \<and>
      get_prop (genderDistribution snapshot_gender) ''Female'' = Some (Finite (of_int 520)) \<and>
      (0::int) \<le> 520 \<and> (520::int) < 10 ^ 12"
    using f tp by simp
  with t have "shows_rounded (femalePercent snapshot_gender) 1 (100 * of_int 520 / of_int 1000)"
    by blast
  then have w1: "shows_rounded (femalePercent snapshot_gender) 1 52" by simp
  have "totalPatients snapshot_gender = Finite (of_int 1000) \<and> (0::int) < 1000 \<and>
      (1000::int) \<le> 2 ^ 53 \<and>
      get_prop (genderDistribution snapshot_gender) ''Male'' = Some (Finite (of_int 480)) \<and>
      (0::int) \<le> 480 \<and> (480::int) < 10 ^ 12"
    using m tp by simp
  with t have "shows_rounded (malePercent snapshot_gender) 1 (100 * of_int 480 / of_int 1000)"
    by blast
  then have w2: "shows_rounded (malePercent snapshot_gender) 1 48" by simp
  have "totalPatients snapshot_gender = Finite (of_int 1000) \<and> (0::int) < 1000 \<and>
      (1000::int) \<le> 2 ^ 53 \<and>
      homePhone (contactAvailability snapshot_gender) = Finite (of_int 150) \<and>
      mobilePhone (contactAvailability snapshot_gender) = Finite (of_int 600) \<and>
      (0::int) \<le> 150 \<and> (0::int) \<le> 600 \<and> (150::int) + 600 < 10 ^ 12"
    by (simp add: snapshot_gender_def)
  with t have "shows_rounded (contactRate snapshot_gender) 1 (100 * of_int (150 + 600) / of_int 1000)"
    by blast
  then have w3: "shows_rounded (contactRate snapshot_gender) 1 75" by simp
  from t f have w4: "femalePercent snapshot_gender =
     toFixed (Number_multiply (Number_divide (Finite 520) (Finite 1000)) (Finite 100)) 1"
    by (simp add: tp)
  from t m have w5: "malePercent snapshot_gender =
     toFixed (Number_multiply (Number_divide (Finite 480) (Finite 1000)) (Finite 100)) 1"
    by (simp add: tp)
  from w1 w2 w3 w4 w5 show ?thesis by blast
qed

text \<open>
  C8.  With the keys \<open>60-74\<close>, \<open>75-99\<close> and \<open>100+\<close> present, the aging-population
  percentage is the sum of the three counts divided by \<open>totalPatients\<close>, times 100, printed
  by \<open>toFixed(0)\<close>; for integer counts with a sum below \<open>10^12\<close> it is the exact
  percentage rounded to an integer, and for 200, 100 and 10 of 1000 it is \<open>31\<close>.  When
  one of the three keys is absent the text is \<open>NaN\<close>.
\<close>

theorem aging_population_percent:
  "(\<forall>a b c. get_prop (ageGroups d) ''60-74'' = Some a \<and>
      get_prop (ageGroups d) ''75-99'' = Some b \<and> get_prop (ageGroups d) ''100+'' = Some c \<longrightarrow>
      agingPopulationPercent d =
        toFixed (Number_multiply
                   (Number_divide (Number_add (Number_add a b) c) (totalPatients d))
                   (Finite 100)) 0) \<and>
   (\<forall>t a b c. totalPatients d = Finite (of_int t) \<and> 0 < t \<and> t \<le> 2 ^ 53 \<and>
      get_prop (ageGroups d) ''60-74'' = Some (Finite (of_int a)) \<and>
      get_prop (ageGroups d) ''75-99'' = Some (Finite (of_int b)) \<and>
      get_prop (ageGroups d) ''100+'' = Some (Finite (of_int c)) \<and>
      0 \<le> a \<and> 0 \<le> b \<and> 0 \<le> c \<and> a + b + c < 10 ^ 12 \<longrightarrow>
      shows_rounded (agingPopulationPercent d) 0 (100 * of_int (a + b + c) / of_int t)) \<and>
   agingPopulationPercent snapshot_gender = Inr (Text ''31'') \<and>
   (get_prop (ageGroups d) ''60-74'' = None \<or> get_prop (ageGroups d) ''75-99'' = None \<or>
      get_prop (ageGroups d) ''100+'' = None \<longrightarrow>
      agingPopulationPercent d = Inr (Text ''NaN''))"
proof (intro conjI allI impI)
  fix a b c
  assume "get_prop (ageGroups d) ''60-74'' = Some a \<and>
      get_prop (ageGroups d) ''75-99'' = Some b \<and> get_prop (ageGroups d) ''100+'' = Some c"
  then show "agingPopulationPercent d =
      toFixed (Number_multiply
                 (Number_divide (Number_add (Number_add a b) c) (totalPatients d))
                 (Finite 100)) 0"
    by (simp add: agingPopulationPercent_def ToNumber_def)
next
  fix t a b c :: int
  assume h: "totalPatients d = Finite (of_int t) \<and> 0 < t \<and> t \<le> 2 ^ 53 \<and>
      get_prop (ageGroups d) ''60-74'' = Some (Finite (of_int a)) \<and>
      get_prop (ageGroups d) ''75-99'' = Some (Finite (of_int b)) \<and>
      get_prop (ageGroups d) ''100+'' = Some (Finite (of_int c)) \<and>
      0 \<le> a \<and> 0 \<le> b \<and> 0 \<le> c \<and> a + b + c < 10 ^ 12"
  then have ab: "Number_add (Finite (of_int a)) (Finite (of_int b)) = Finite (of_int (a + b))"
    by (intro Number_add_int) simp_all
  from h have abc: "Number_add (Finite (of_int (a + b))) (Finite (of_int c)) =
      Finite (of_int (a + b + c))"
    by (intro Number_add_int) simp_all
  from h have "shows_rounded
      (toFixed (Number_multiply (Number_divide (Finite (of_int (a + b + c))) (Finite (of_int t)))
         (Finite 100)) 0) 0 (100 * of_int (a + b + c) / of_int t)"
    by (intro percent_shows_rounded) simp_all
  with h ab abc show "shows_rounded (agingPopulationPercent d) 0 (100 * of_int (a + b + c) / of_int t)"
    by (simp add: agingPopulationPercent_def ToNumber_def)
next
  show "agingPopulationPercent snapshot_gender = Inr (Text ''31'')"
    by (rule snapshot_gender_aging)
next
  assume "get_prop (ageGroups d) ''60-74'' = None \<or> get_prop (ageGroups d) ''75-99'' = None \<or>
      get_prop (ageGroups d) ''100+'' = None"
  then have "Number_add (Number_add (ToNumber (get_prop (ageGroups d) ''60-74''))
                 (ToNumber (get_prop (ageGroups d) ''75-99'')))
               (ToNumber (get_prop (ageGroups d) ''100+'')) = NaN"
    by (auto simp: ToNumber_def Number_add_NaN)
  then show "agingPopulationPercent d = Inr (Text ''NaN'')"
    by (simp add: agingPopulationPercent_def percent_of_NaN)
qed

theorem aging_population_percent_witness:
  "shows_rounded (agingPopulationPercent snapshot_gender) 0 31 \<and>
   agingPopulationPercent snapshot_gender =
     toFixed (Number_multiply
                (Number_divide (Number_add (Number_add (Finite 200) (Finite 100)) (Finite 10))
                   (Finite 1000))
                (Finite 100)) 0 \<and>
   agingPopulationPercent snapshot_no_centenarians = Inr (Text ''NaN'')"
proof -
  note t = aging_population_percent [of snapshot_gender]
  note u = aging_population_percent [of snapshot_no_centenarians]
  have k: "get_prop (ageGroups snapshot_gender) ''60-74'' = Some (Finite 200) \<and>
      get_prop (ageGroups snapshot_gender) ''75-99'' = Some (Finite 100) \<and>
      get_prop (ageGroups snapshot_gender) ''100+'' = Some (Finite 10)"
    by (simp add: snapshot_gender_def get_prop_def)
  have tp: "totalPatients snapshot_gender = Finite 1000"
    by (simp add: snapshot_gender_def)
  have "totalPatients snapshot_gender = Finite (of_int 1000) \<and> (0::int) < 1000 \<and>
      (1000::int) \<le> 2 ^ 53 \<and>
      get_prop (ageGroups snapshot_gender) ''60-74'' = Some (Finite (of_int 200)) \<and>
      get_prop (ageGroups snapshot_gender) ''75-99'' = Some (Finite (of_int 100)) \<and>
      get_prop (ageGroups snapshot_gender) ''100+'' = Some (Finite (of_int 10)) \<and>
      (0::int) \<le> 200 \<and> (0::int) \<le> 100 \<and> (0::int) \<le> 10 \<and> (200::int) + 100 + 10 < 10 ^ 12"
    using k tp by simp
  with t have "shows_rounded (agingPopulationPercent snapshot_gender) 0
      (100 * of_int (200 + 100 + 10) / of_int 1000)"
    by blast
  then have w1: "shows_rounded (agingPopulationPercent snapshot_gender) 0 31" by simp
  from t k have w2: "agingPopulationPercent snapshot_gender =
     toFixed (Number_multiply
                (Number_divide (Number_add (Number_add (Finite 200) (Finite 100)) (Finite 10))
                   (totalPatients snapshot_gender))
                (Finite 100)) 0"
    by blast
  have "get_prop (ageGroups snapshot_no_centenarians) ''100+'' = None"
    by (simp add: snapshot_no_centenarians_def get_prop_def)
  with u have w3: "agingPopulationPercent snapshot_no_centenarians = Inr (Text ''NaN'')"
    by blast
  from w1 w2 w3 show ?thesis by (simp add: tp)
qed

text \<open>
  C9.  When \<open>totalPatients\<close> is zero (\<open>+0\<close> or \<open>-0\<close>), each of \<open>femalePercent\<close>,
  \<open>malePercent\<close>, \<open>contactRate\<close> and the two insight percentages returns a text, not an
  exception, and the text is \<open>NaN\<close>, \<open>Infinity\<close> or \<open>-Infinity\<close>.
\<close>

theorem zero_totalPatients:
  "is_zero (totalPatients d) \<Longrightarrow>
   non_finite_text (femalePercent d) \<and> non_finite_text (malePercent d) \<and>
   non_finite_text (contactRate d) \<and> non_finite_text (agingPopulationPercent d) \<and>
   non_finite_text (noContactPercent d)"
  by (simp add: femalePercent_def malePercent_def contactRate_def agingPopulationPercent_def
      noContactPercent_def percent_of_zero)

theorem zero_totalPatients_witness:
  "is_zero (totalPatients snapshot_no_patients) \<and>
   femalePercent snapshot_no_patients = Inr (Text ''Infinity'') \<and>
   non_finite_text (malePercent snapshot_no_patients) \<and>
   non_finite_text (contactRate snapshot_no_patients) \<and>
   non_finite_text (agingPopulationPercent snapshot_no_patients) \<and>
   non_finite_text (noContactPercent snapshot_no_patients)"
proof -
  have z: "is_zero (totalPatients snapshot_no_patients)"
    by (simp add: snapshot_no_patients_def)
  have "femalePercent snapshot_no_patients = Inr (Text ''Infinity'')"
    by (simp add: femalePercent_def snapshot_no_patients_def snapshot_gender_def get_prop_def
        ToNumber_def Number_divide_def Number_multiply_def signed_infinity_def toFixed_def)
  with z zero_totalPatients [OF z] show ?thesis by simp
qed

text \<open>
  C10.  Replacing \<open>surgeryStats\<close> by anything else leaves every sequence of chart records
  and every percentage as it was.
\<close>

theorem surgeryStats_unused:
  "genderData (d\<lparr>surgeryStats := x\<rparr>) = genderData d \<and>
   ageData (d\<lparr>surgeryStats := x\<rparr>) = ageData d \<and>
   ethnicityData (d\<lparr>surgeryStats := x\<rparr>) = ethnicityData d \<and>
   prescriberData (d\<lparr>surgeryStats := x\<rparr>) = prescriberData d \<and>
   contactData (d\<lparr>surgeryStats := x\<rparr>) = contactData d \<and>
   femalePercent (d\<lparr>surgeryStats := x\<rparr>) = femalePercent d \<and>
   malePercent (d\<lparr>surgeryStats := x\<rparr>) = malePercent d \<and>
   contactRate (d\<lparr>surgeryStats := x\<rparr>) = contactRate d \<and>
   agingPopulationPercent (d\<lparr>surgeryStats := x\<rparr>) = agingPopulationPercent d \<and>
   noContactPercent (d\<lparr>surgeryStats := x\<rparr>) = noContactPercent d"
  by (simp add: genderData_def ageData_def ethnicityData_def prescriberData_def contactData_def
      femalePercent_def malePercent_def contactRate_def agingPopulationPercent_def
      noContactPercent_def)

end
